theory Spec2Isabelle
  imports Main "HOL-Library.Sublist"
begin

section \<open>Python values and exceptions\<close>

text \<open>
  The client of \<^verbatim>\<open>src/hh_api_client.py\<close> handles loosely typed values: employer ids
  given by the caller and JSON documents returned by the server. \<open>pyval\<close> is the
  universe of these values: \<open>None\<close>, \<open>bool\<close>, \<open>int\<close> (unbounded), \<open>str\<close>, \<open>list\<close> and
  \<open>dict\<close> with string keys (a JSON object, as an association list in insertion order).
  A \<open>string\<close> lists the characters of the Python \<open>str\<close>. Python floats are not part of
  the universe: no operation of the client is specific to them.
\<close>

datatype pyval =
    PNone
  | PBool bool
  | PInt int
  | PStr string
  | PList "pyval list"
  | PDict "(string \<times> pyval) list"

text \<open>
  The exceptions the client can meet. \<open>ValueError\<close> carries its message: the client
  raises it with three different messages. \<open>RequestException\<close> stands for every
  exception of the class \<^verbatim>\<open>requests.RequestException\<close> (connection errors, timeouts,
  \<^verbatim>\<open>HTTPError\<close> of \<^verbatim>\<open>raise_for_status\<close>, the decoding error of \<^verbatim>\<open>response.json()\<close>).
\<close>

datatype error =
    ValueError string
  | AttributeError
  | TypeError
  | KeyError
  | RequestException

subsection \<open>Built-in operations\<close>

text \<open>\<^verbatim>\<open>isinstance(v, int)\<close> holds for \<open>int\<close> and for \<open>bool\<close>, a subclass of \<open>int\<close> whose
  values are the integers 0 and 1. \<open>as_int v\<close> is the integer value of such a \<open>v\<close>.\<close>

fun as_int :: "pyval \<Rightarrow> int option" where
  "as_int (PInt n) = Some n"
| "as_int (PBool b) = Some (if b then 1 else 0)"
| "as_int _ = None"

text \<open>\<^verbatim>\<open>d.get(key, default)\<close>: only a \<open>dict\<close> has the method; on any other JSON value
  the attribute lookup raises \<open>AttributeError\<close>. \<^verbatim>\<open>d.get(key)\<close> is \<open>py_get d key PNone\<close>.\<close>

fun py_get :: "pyval \<Rightarrow> string \<Rightarrow> pyval \<Rightarrow> error + pyval" where
  "py_get (PDict kvs) k dflt = Inr (case map_of kvs k of Some v \<Rightarrow> v | None \<Rightarrow> dflt)"
| "py_get _ k dflt = Inl AttributeError"

text \<open>\<^verbatim>\<open>d[key]\<close> with a string key: \<open>KeyError\<close> on a \<open>dict\<close> without the key,
  \<open>TypeError\<close> on every other JSON value.\<close>

fun py_getitem :: "pyval \<Rightarrow> string \<Rightarrow> error + pyval" where
  "py_getitem (PDict kvs) k = (case map_of kvs k of Some v \<Rightarrow> Inr v | None \<Rightarrow> Inl KeyError)"
| "py_getitem _ k = Inl TypeError"

text \<open>The elements \<^verbatim>\<open>list.extend(v)\<close> appends: those of a list, the keys of a dict,
  the characters of a string; the other values are not iterable.\<close>

fun py_iter :: "pyval \<Rightarrow> error + pyval list" where
  "py_iter (PList vs) = Inr vs"
| "py_iter (PDict kvs) = Inr (map (\<lambda>kv. PStr (fst kv)) kvs)"
| "py_iter (PStr s) = Inr (map (\<lambda>c. PStr [c]) s)"
| "py_iter _ = Inl TypeError"

text \<open>\<^verbatim>\<open>v - n\<close> for an integer \<open>n\<close>: defined on \<open>int\<close> and \<open>bool\<close> only.\<close>

definition py_sub :: "pyval \<Rightarrow> int \<Rightarrow> error + int" where
  "py_sub v n = (case as_int v of Some m \<Rightarrow> Inr (m - n) | None \<Rightarrow> Inl TypeError)"

text \<open>
  \<^verbatim>\<open>int(v)\<close>: an \<open>int\<close> is returned, a \<open>bool\<close> gives 0 or 1, \<open>None\<close>, a list and a dict
  raise \<open>TypeError\<close>. A string is parsed by the runtime, which raises \<open>ValueError\<close> on a
  string that is not an integer literal; the parser is the parameter \<open>str_to_int\<close>
  (\<open>None\<close> where the runtime raises).
\<close>

fun py_int :: "(string \<Rightarrow> int option) \<Rightarrow> pyval \<Rightarrow> error + int" where
  "py_int str_to_int (PInt n) = Inr n"
| "py_int str_to_int (PBool b) = Inr (if b then 1 else 0)"
| "py_int str_to_int (PStr s) =
     (case str_to_int s of
        Some n \<Rightarrow> Inr n
      | None \<Rightarrow> Inl (ValueError ''invalid literal for int() with base 10''))"
| "py_int str_to_int _ = Inl TypeError"

text \<open>
  Keys of a Python dict are compared by \<^verbatim>\<open>==\<close> (after hashing): \<open>True\<close> and \<open>1\<close> are
  the same key, as are \<open>False\<close> and \<open>0\<close>. Lists and dicts are not hashable: a lookup
  with one of them raises \<open>TypeError\<close>.
\<close>

fun hashable :: "pyval \<Rightarrow> bool" where
  "hashable (PList vs) = False"
| "hashable (PDict kvs) = False"
| "hashable _ = True"

fun norm_key :: "pyval \<Rightarrow> pyval" where
  "norm_key (PBool b) = PInt (if b then 1 else 0)"
| "norm_key v = v"

definition py_eq :: "pyval \<Rightarrow> pyval \<Rightarrow> bool" where
  "py_eq a b = (norm_key a = norm_key b)"

text \<open>A dict built by the client (keys of any hashable value): an association list in
  insertion order. \<open>dict_lookup\<close> is the value stored under a key, \<open>dict_contains\<close> is
  \<^verbatim>\<open>key in d\<close>.\<close>

type_synonym pydict = "(pyval \<times> pyval) list"

fun dict_lookup :: "pydict \<Rightarrow> pyval \<Rightarrow> pyval option" where
  "dict_lookup [] k = None"
| "dict_lookup ((k', v) # d) k = (if py_eq k' k then Some v else dict_lookup d k)"

definition dict_contains :: "pydict \<Rightarrow> pyval \<Rightarrow> error + bool" where
  "dict_contains d k = (if hashable k then Inr (dict_lookup d k \<noteq> None) else Inl TypeError)"

section \<open>The HTTP transport\<close>

text \<open>
  The transport is a black box. A request is one of the two \<^verbatim>\<open>requests.get\<close> calls of
  the client; the answer is \<open>None\<close> when \<^verbatim>\<open>requests.get\<close> raises (a
  \<^verbatim>\<open>RequestException\<close>), and a response otherwise, with its status code and its body
  as \<^verbatim>\<open>response.json()\<close> parses it (\<open>None\<close> when the body is not JSON: then
  \<^verbatim>\<open>response.json()\<close> raises \<^verbatim>\<open>requests.exceptions.JSONDecodeError\<close>, a
  \<^verbatim>\<open>RequestException\<close> since requests 2.27). The answer may depend on the request and
  on the number of requests the client has sent before, so a transport can answer
  the same request differently over time.
\<close>

record query_params =
  per_page :: int
  page :: int
  only_with_salary :: bool
  employer_id :: "pyval option"

datatype request =
    GetEmployer pyval
  | GetVacancies "(string \<times> string) list" query_params

record response =
  status_code :: int
  json :: "pyval option"

type_synonym transport = "nat \<Rightarrow> request \<Rightarrow> response option"

text \<open>\<^verbatim>\<open>response.raise_for_status()\<close> raises \<^verbatim>\<open>HTTPError\<close> for the statuses 400 to 599.\<close>

definition raise_for_status :: "response \<Rightarrow> bool" where
  "raise_for_status r = (400 \<le> status_code r \<and> status_code r < 600)"

section \<open>The client\<close>

text \<open>The fields of \<^verbatim>\<open>HHAPIClient\<close> that change, and \<open>trace\<close>, the requests sent so far
  in order (the transport's side of the run).\<close>

record client =
  params :: query_params
  data :: "pyval list"
  trace :: "request list"

definition headers :: "(string \<times> string) list" where
  "headers = [(''User-Agent'', ''HH-User-Agent'')]"

definition init_client :: client where
  "init_client =
     \<lparr>params = \<lparr>per_page = 100, page = 0, only_with_salary = True, employer_id = None\<rparr>,
      data = [], trace = []\<rparr>"

text \<open>\<^verbatim>\<open>requests.get\<close>: the request is recorded and the transport answers.\<close>

definition send :: "transport \<Rightarrow> request \<Rightarrow> client \<Rightarrow> response option \<times> client" where
  "send net req st = (net (length (trace st)) req, st\<lparr>trace := trace st @ [req]\<rparr>)"

subsection \<open>Validation\<close>

text \<open>\<^verbatim>\<open>valid_id\<close>: the id is returned when \<^verbatim>\<open>isinstance(employer_id, int) and employer_id > 0\<close>,
  and \<^verbatim>\<open>ValueError('Invalid employer ID')\<close> is raised otherwise.\<close>

definition valid_id :: "pyval \<Rightarrow> error + pyval" where
  "valid_id emp_id =
     (case as_int emp_id of
        Some n \<Rightarrow> if 0 < n then Inr emp_id else Inl (ValueError ''Invalid employer ID'')
      | None \<Rightarrow> Inl (ValueError ''Invalid employer ID''))"

text \<open>\<^verbatim>\<open>check_existence\<close>: one request to the employer endpoint; an exception of
  \<^verbatim>\<open>requests.get\<close> is not caught here.\<close>

definition check_existence :: "transport \<Rightarrow> pyval \<Rightarrow> client \<Rightarrow> (error + bool) \<times> client" where
  "check_existence net emp_id st =
     (case send net (GetEmployer emp_id) st of
        (None, st1) \<Rightarrow> (Inl RequestException, st1)
      | (Some resp, st1) \<Rightarrow>
          if status_code resp = 200 then (Inr True, st1)
          else if status_code resp = 404 then (Inl (ValueError ''Employer ID does not exist''), st1)
          else (Inl (ValueError ''Failed to check employer ID''), st1))"

subsection \<open>The pagination loop\<close>

text \<open>One iteration of \<^verbatim>\<open>while True\<close> in \<^verbatim>\<open>load_vacancy_by_emp_id\<close>: \<open>Break\<close> leaves the
  loop (by \<^verbatim>\<open>break\<close>, also from the \<^verbatim>\<open>except\<close> clause), \<open>Raise\<close> is an exception the
  clause does not catch, \<open>Continue\<close> goes on with the next page.\<close>

datatype step = Break client | Raise error client | Continue client

definition fetch_page :: "transport \<Rightarrow> client \<Rightarrow> step" where
  "fetch_page net st =
     (case send net (GetVacancies headers (params st)) st of
        (None, st1) \<Rightarrow> Break st1
      | (Some resp, st1) \<Rightarrow>
          if raise_for_status resp then Break st1
          else
            (case json resp of
               None \<Rightarrow> Break st1
             | Some body \<Rightarrow>
                 (case py_getitem body ''items'' of
                    Inl e \<Rightarrow> Raise e st1
                  | Inr vacancies \<Rightarrow>
                      (case py_iter vacancies of
                         Inl e \<Rightarrow> Raise e st1
                       | Inr vs \<Rightarrow>
                           (let st2 = st1\<lparr>data := data st1 @ vs\<rparr> in
                            case py_getitem body ''pages'' of
                              Inl e \<Rightarrow> Raise e st2
                            | Inr pages \<Rightarrow>
                                (case py_sub pages 1 of
                                   Inl e \<Rightarrow> Raise e st2
                                 | Inr last_page \<Rightarrow>
                                     if page (params st2) \<ge> last_page then Break st2
                                     else Continue
                                       (st2\<lparr>params := (params st2)\<lparr>page := page (params st2) + 1\<rparr>\<rparr>)))))))"

text \<open>The loop. It need not end (a server can report ever more pages): \<open>None\<close> is
  the run that does not end. Otherwise the result is what the loop leaves behind:
  \<open>Inr ()\<close> after a \<^verbatim>\<open>break\<close>, \<open>Inl e\<close> for an exception that leaves the method, each
  with the client at that moment (an exception does not undo the appends).\<close>

partial_function (option) fetch_pages :: "transport \<Rightarrow> client \<Rightarrow> ((error + unit) \<times> client) option" where
  "fetch_pages net st =
     (case fetch_page net st of
        Break st1 \<Rightarrow> Some (Inr (), st1)
      | Raise e st1 \<Rightarrow> Some (Inl e, st1)
      | Continue st1 \<Rightarrow> fetch_pages net st1)"

declare fetch_pages.simps [code]

text \<open>\<^verbatim>\<open>load_vacancy_by_emp_id\<close>: validation, the existence check, then the loop from
  page 0 with the employer as a filter. The exceptions of the first two leave the
  method.\<close>

definition load_vacancy_by_emp_id ::
  "transport \<Rightarrow> pyval \<Rightarrow> client \<Rightarrow> ((error + unit) \<times> client) option" where
  "load_vacancy_by_emp_id net emp_id st =
     (case valid_id emp_id of
        Inl e \<Rightarrow> Some (Inl e, st)
      | Inr eid \<Rightarrow>
          (case check_existence net eid st of
             (Inl e, st1) \<Rightarrow> Some (Inl e, st1)
           | (Inr ok, st1) \<Rightarrow>
               fetch_pages net (st1\<lparr>params := (params st1)\<lparr>employer_id := Some eid, page := 0\<rparr>\<rparr>)))"

text \<open>\<^verbatim>\<open>load_vacancies_by_emp_ids\<close>: a \<^verbatim>\<open>for\<close> loop over the ids with no \<^verbatim>\<open>try\<close> around the
  call, so an exception of one call ends the loop.\<close>

fun load_vacancies_by_emp_ids ::
  "transport \<Rightarrow> pyval list \<Rightarrow> client \<Rightarrow> ((error + unit) \<times> client) option" where
  "load_vacancies_by_emp_ids net [] st = Some (Inr (), st)"
| "load_vacancies_by_emp_ids net (emp_id # emp_ids) st =
     (case load_vacancy_by_emp_id net emp_id st of
        None \<Rightarrow> None
      | Some (Inl e, st1) \<Rightarrow> Some (Inl e, st1)
      | Some (Inr u, st1) \<Rightarrow> load_vacancies_by_emp_ids net emp_ids st1)"

section \<open>Projections of the accumulated list\<close>

text \<open>The projections read \<^verbatim>\<open>self.data\<close>; each returns its result (or the exception it
  raises) together with the client as it leaves it.\<close>

text \<open>Sequencing of evaluations that may raise: the first exception ends the
  evaluation and is the result.\<close>

definition and_then :: "error + 'a \<Rightarrow> ('a \<Rightarrow> error + 'b) \<Rightarrow> error + 'b" where
  "and_then r f = (case r of Inl e \<Rightarrow> Inl e | Inr v \<Rightarrow> f v)"

definition get_info :: "client \<Rightarrow> pyval list \<times> client" where
  "get_info st = (data st, st)"

text \<open>The loop of \<^verbatim>\<open>get_areas\<close> over the records, \<open>areas\<close> being the dict built so far.\<close>

fun get_areas_loop :: "pyval list \<Rightarrow> pydict \<Rightarrow> error + pydict" where
  "get_areas_loop [] areas = Inr areas"
| "get_areas_loop (vacancy # rest) areas =
     and_then (py_get vacancy ''area'' PNone) (\<lambda>area.
     and_then (py_get area ''id'' PNone) (\<lambda>area_id.
     and_then (dict_contains areas area_id) (\<lambda>seen.
       if seen then get_areas_loop rest areas
       else
         and_then (py_get area ''name'' PNone) (\<lambda>nm.
         and_then (py_get area ''url'' PNone) (\<lambda>u.
           get_areas_loop rest (areas @ [(area_id, PDict [(''name'', nm), (''url'', u)])]))))))"

definition get_areas :: "client \<Rightarrow> (error + pydict) \<times> client" where
  "get_areas st = (get_areas_loop (data st) [], st)"

fun get_employers_loop :: "pyval list \<Rightarrow> pydict \<Rightarrow> error + pydict" where
  "get_employers_loop [] employers = Inr employers"
| "get_employers_loop (vacancy # rest) employers =
     and_then (py_get vacancy ''employer'' PNone) (\<lambda>employer.
     and_then (py_get employer ''id'' PNone) (\<lambda>emp_id.
     and_then (dict_contains employers emp_id) (\<lambda>seen.
       if seen then get_employers_loop rest employers
       else
         and_then (py_get employer ''name'' PNone) (\<lambda>nm.
         and_then (py_get employer ''url'' PNone) (\<lambda>u.
           get_employers_loop rest
             (employers @
              [(emp_id, PDict [(''name'', nm), (''url'', u), (''open_vacancies'', PInt 0)])]))))))"

definition get_employers :: "client \<Rightarrow> (error + pydict) \<times> client" where
  "get_employers st = (get_employers_loop (data st) [], st)"

text \<open>
  The body of the loop of \<^verbatim>\<open>get_vacancies\<close>, in evaluation order. The two
  \<^verbatim>\<open>logger.debug\<close> calls format \<^verbatim>\<open>vacancy.get('employer').get('id')\<close> and
  \<^verbatim>\<open>vacancy.get('url')\<close> before the dict is built (an f-string is evaluated whatever
  the log level), so they come first.
\<close>

definition vacancy_row :: "(string \<Rightarrow> int option) \<Rightarrow> pyval \<Rightarrow> error + pyval" where
  "vacancy_row str_to_int vacancy =
     and_then (py_get vacancy ''salary'' (PDict [])) (\<lambda>salary.
     and_then (py_get salary ''from'' PNone) (\<lambda>salary_from.
     and_then (py_get vacancy ''employer'' PNone) (\<lambda>logged_employer.
     and_then (py_get logged_employer ''id'' PNone) (\<lambda>logged_id.
     and_then (py_get vacancy ''url'' PNone) (\<lambda>logged_url.
     and_then (py_get vacancy ''id'' PNone) (\<lambda>raw_id.
     and_then (py_int str_to_int raw_id) (\<lambda>vacancy_id.
     and_then (py_get vacancy ''name'' PNone) (\<lambda>nm.
     and_then (py_get vacancy ''area'' (PDict [(''id'', PNone)])) (\<lambda>area.
     and_then (py_get area ''id'' PNone) (\<lambda>raw_area_id.
     and_then (py_int str_to_int raw_area_id) (\<lambda>area_id.
     and_then (py_get vacancy ''employer'' PNone) (\<lambda>employer.
     and_then (py_get employer ''id'' PNone) (\<lambda>raw_emp_id.
     and_then (py_int str_to_int raw_emp_id) (\<lambda>emp_id.
     and_then (py_get vacancy ''url'' PNone) (\<lambda>u.
       Inr (PDict [(''id'', PInt vacancy_id), (''name'', nm), (''area_id'', PInt area_id),
                   (''salary'', salary_from), (''employer_id'', PInt emp_id),
                   (''url'', u)]))))))))))))))))"

fun get_vacancies_loop ::
  "(string \<Rightarrow> int option) \<Rightarrow> pyval list \<Rightarrow> pyval list \<Rightarrow> error + pyval list" where
  "get_vacancies_loop str_to_int [] vacancies_list = Inr vacancies_list"
| "get_vacancies_loop str_to_int (vacancy # rest) vacancies_list =
     and_then (vacancy_row str_to_int vacancy) (\<lambda>row.
       get_vacancies_loop str_to_int rest (vacancies_list @ [row]))"

definition get_vacancies ::
  "(string \<Rightarrow> int option) \<Rightarrow> client \<Rightarrow> (error + pyval list) \<times> client" where
  "get_vacancies str_to_int st = (get_vacancies_loop str_to_int (data st) [], st)"

section \<open>Vocabulary of the properties\<close>

subsection \<open>Well-formed records\<close>

text \<open>A record is well formed for \<^verbatim>\<open>get_vacancies\<close> when it is a dict whose \<open>id\<close>, and
  the \<open>id\<close> of whose \<open>area\<close> and \<open>employer\<close> objects, are values \<^verbatim>\<open>int()\<close> accepts, and
  whose \<open>salary\<close>, when present, is an object.\<close>

definition has_int_id :: "(string \<Rightarrow> int option) \<Rightarrow> pyval \<Rightarrow> bool" where
  "has_int_id str_to_int v =
     (case py_get v ''id'' PNone of
        Inl e \<Rightarrow> False
      | Inr raw \<Rightarrow> (case py_int str_to_int raw of Inl e \<Rightarrow> False | Inr n \<Rightarrow> True))"

fun is_dict :: "pyval \<Rightarrow> bool" where
  "is_dict (PDict kvs) = True"
| "is_dict _ = False"

definition well_formed :: "(string \<Rightarrow> int option) \<Rightarrow> pyval \<Rightarrow> bool" where
  "well_formed str_to_int v =
     (case v of
        PDict kvs \<Rightarrow>
          has_int_id str_to_int v \<and>
          (case map_of kvs ''area'' of None \<Rightarrow> False | Some a \<Rightarrow> has_int_id str_to_int a) \<and>
          (case map_of kvs ''employer'' of None \<Rightarrow> False | Some e \<Rightarrow> has_int_id str_to_int e) \<and>
          (case map_of kvs ''salary'' of None \<Rightarrow> True | Some s \<Rightarrow> is_dict s)
      | _ \<Rightarrow> False)"

subsection \<open>First-seen entries\<close>

text \<open>
  \<open>value_at k v\<close> is the value of a JSON object under a key (\<open>None\<close> when there is
  none). \<open>first_seen fld vs k\<close> is the nested object \<open>fld\<close> of the first record of \<open>vs\<close>
  whose nested id equals the key \<open>k\<close>. \<open>area_entry\<close> and \<open>employer_entry\<close> are the values
  the derived maps store for such an object. \<open>has_object fld v\<close>: the record \<open>v\<close> holds
  an object under \<open>fld\<close> whose id can be a key. \<open>distinct_keys\<close>: no two entries of a
  dict have equal keys.
\<close>

fun value_at :: "string \<Rightarrow> pyval \<Rightarrow> pyval" where
  "value_at k (PDict kvs) = (case map_of kvs k of Some v \<Rightarrow> v | None \<Rightarrow> PNone)"
| "value_at k _ = PNone"

fun first_seen :: "string \<Rightarrow> pyval list \<Rightarrow> pyval \<Rightarrow> pyval option" where
  "first_seen fld [] k = None"
| "first_seen fld (v # vs) k =
     (if py_eq (value_at ''id'' (value_at fld v)) k then Some (value_at fld v)
      else first_seen fld vs k)"

definition area_entry :: "pyval \<Rightarrow> pyval" where
  "area_entry a = PDict [(''name'', value_at ''name'' a), (''url'', value_at ''url'' a)]"

definition employer_entry :: "pyval \<Rightarrow> pyval" where
  "employer_entry a =
     PDict [(''name'', value_at ''name'' a), (''url'', value_at ''url'' a),
            (''open_vacancies'', PInt 0)]"

definition has_object :: "string \<Rightarrow> pyval \<Rightarrow> bool" where
  "has_object fld v =
     (is_dict v \<and> is_dict (value_at fld v) \<and> hashable (value_at ''id'' (value_at fld v)))"

definition distinct_keys :: "pydict \<Rightarrow> bool" where
  "distinct_keys d = distinct (map (\<lambda>kv. norm_key (fst kv)) d)"

subsection \<open>Runs of the pagination loop\<close>

text \<open>
  What the transport answers to a list request: \<open>failed\<close>, when \<^verbatim>\<open>requests.get\<close> raises or
  the status makes \<^verbatim>\<open>raise_for_status\<close> raise (a transport or HTTP error);
  \<open>page_count r = Some p\<close>, when the request succeeds with a body that holds an \<open>items\<close>
  array and the integer \<open>p\<close> under \<open>pages\<close>; \<open>page_items\<close>, the elements of that array.
  \<open>tame bound r\<close>: the answer is a failure or a page that reports at most \<open>bound\<close> pages.
\<close>

definition failed :: "response option \<Rightarrow> bool" where
  "failed r = (case r of None \<Rightarrow> True | Some resp \<Rightarrow> raise_for_status resp)"

definition page_count :: "response option \<Rightarrow> int option" where
  "page_count r =
     (case r of
        None \<Rightarrow> None
      | Some resp \<Rightarrow>
          if raise_for_status resp then None
          else
            (case json resp of
               None \<Rightarrow> None
             | Some body \<Rightarrow>
                 (case py_getitem body ''items'' of
                    Inr (PList vs) \<Rightarrow>
                      (case py_getitem body ''pages'' of Inr (PInt p) \<Rightarrow> Some p | _ \<Rightarrow> None)
                  | _ \<Rightarrow> None)))"

definition page_items :: "response option \<Rightarrow> pyval list" where
  "page_items r =
     (case r of
        None \<Rightarrow> []
      | Some resp \<Rightarrow>
          (case json resp of
             None \<Rightarrow> []
           | Some body \<Rightarrow> (case py_getitem body ''items'' of Inr (PList vs) \<Rightarrow> vs | _ \<Rightarrow> [])))"

definition tame :: "int \<Rightarrow> response option \<Rightarrow> bool" where
  "tame bound r = (failed r \<or> (case page_count r of None \<Rightarrow> False | Some p \<Rightarrow> p \<le> bound))"

text \<open>The client an iteration of the loop leaves, however the iteration ends.\<close>

fun step_client :: "step \<Rightarrow> client" where
  "step_client (Break st) = st"
| "step_client (Raise e st) = st"
| "step_client (Continue st) = st"

text \<open>The employers looked up by the requests of a trace, in order.\<close>

definition lookups :: "request list \<Rightarrow> pyval list" where
  "lookups tr = concat (map (\<lambda>r. case r of GetEmployer e \<Rightarrow> [e] | GetVacancies h q \<Rightarrow> []) tr)"

text \<open>The number of list requests of a fetch whose answers all report \<open>p\<close> pages: \<open>p\<close>,
  and one when \<open>p\<close> is not positive (the loop asks for page 0 before it tests).\<close>

definition page_requests :: "int \<Rightarrow> nat" where
  "page_requests p = max 1 (nat p)"

text \<open>
  A fetch for the employer \<open>emp_id\<close> that starts in the client \<open>st\<close> sends the lookup
  request and then list requests: \<open>list_request st emp_id k\<close> is the one for page \<open>k\<close>,
  and \<open>answer net st emp_id k\<close> what the transport answers to it when it is the
  \<open>k\<close>-th list request of the fetch. \<open>started st emp_id\<close> is the client when the loop
  is entered, and \<open>after_pages net st k\<close> the client after \<open>k\<close> more iterations that
  went on to the next page.
\<close>

definition list_request :: "client \<Rightarrow> pyval \<Rightarrow> nat \<Rightarrow> request" where
  "list_request st emp_id k =
     GetVacancies headers ((params st)\<lparr>employer_id := Some emp_id, page := int k\<rparr>)"

definition answer :: "transport \<Rightarrow> client \<Rightarrow> pyval \<Rightarrow> nat \<Rightarrow> response option" where
  "answer net st emp_id k = net (length (trace st) + 1 + k) (list_request st emp_id k)"

definition started :: "client \<Rightarrow> pyval \<Rightarrow> client" where
  "started st emp_id =
     st\<lparr>trace := trace st @ [GetEmployer emp_id],
        params := (params st)\<lparr>employer_id := Some emp_id, page := 0\<rparr>\<rparr>"

definition after_pages :: "transport \<Rightarrow> client \<Rightarrow> nat \<Rightarrow> client" where
  "after_pages net st k =
     st\<lparr>params := (params st)\<lparr>page := page (params st) + int k\<rparr>,
        data := data st @
          concat (map (\<lambda>j. page_items (net (length (trace st) + j)
                    (GetVacancies headers ((params st)\<lparr>page := page (params st) + int j\<rparr>))))
                  [0..<k]),
        trace := trace st @
          map (\<lambda>j. GetVacancies headers ((params st)\<lparr>page := page (params st) + int j\<rparr>)) [0..<k]\<rparr>"

text \<open>
  What one fetch does when it returns normally. \<open>fetched_items\<close>: the items the loop
  appends for an answer (none for an answer that is not a page). \<open>stops net st emp_id k\<close>:
  the \<open>k\<close>-th list request ends the loop, by a failure or by being the last page.
  \<open>fetched net emp_id st st'\<close>: \<open>st'\<close> is \<open>st\<close> after the lookup request and the list
  requests for the pages \<open>0, ..., k\<close> of the employer, \<open>k\<close> being the first page that
  stops the loop, with the items of the answered pages appended in page order.
  \<open>fetched_in_order net emp_ids st st'\<close>: \<open>st'\<close> is reached from \<open>st\<close> by one such fetch
  per id, in the order of the list, each a normal return of \<^verbatim>\<open>load_vacancy_by_emp_id\<close>
  from the client the previous one left. \<open>first_pages\<close>: the employers whose page 0 a
  trace asks for, in order.
\<close>

definition fetched_items :: "response option \<Rightarrow> pyval list" where
  "fetched_items r = (case page_count r of None \<Rightarrow> [] | Some p \<Rightarrow> page_items r)"

definition stops :: "transport \<Rightarrow> client \<Rightarrow> pyval \<Rightarrow> nat \<Rightarrow> bool" where
  "stops net st emp_id k =
     (failed (answer net st emp_id k) \<or>
      (case page_count (answer net st emp_id k) of None \<Rightarrow> False | Some p \<Rightarrow> p - 1 \<le> int k))"

definition fetched :: "transport \<Rightarrow> pyval \<Rightarrow> client \<Rightarrow> client \<Rightarrow> bool" where
  "fetched net emp_id st st' =
     (\<exists>k. (\<forall>j<k. \<exists>p. page_count (answer net st emp_id j) = Some p \<and> int j < p - 1) \<and>
          stops net st emp_id k \<and>
          trace st' = trace st @ GetEmployer emp_id # map (list_request st emp_id) [0..<Suc k] \<and>
          data st' = data st @
            concat (map (\<lambda>j. fetched_items (answer net st emp_id j)) [0..<Suc k]) \<and>
          params st' = (params st)\<lparr>employer_id := Some emp_id, page := int k\<rparr>)"

fun fetched_in_order :: "transport \<Rightarrow> pyval list \<Rightarrow> client \<Rightarrow> client \<Rightarrow> bool" where
  "fetched_in_order net [] st st' = (st' = st)"
| "fetched_in_order net (emp_id # emp_ids) st st' =
     (\<exists>st1. load_vacancy_by_emp_id net emp_id st = Some (Inr (), st1) \<and>
            fetched net emp_id st st1 \<and> fetched_in_order net emp_ids st1 st')"

definition first_pages :: "request list \<Rightarrow> pyval list" where
  "first_pages tr =
     concat (map (\<lambda>r. case r of
                      GetEmployer e \<Rightarrow> []
                    | GetVacancies h q \<Rightarrow>
                        (if page q = 0 then (case employer_id q of None \<Rightarrow> [] | Some e \<Rightarrow> [e])
                         else [])) tr)"

section \<open>Example inputs\<close>

subsection \<open>Records\<close>

text \<open>An instance of the parser of \<^verbatim>\<open>int()\<close> for the examples: it reads the non-empty
  strings of ASCII digits, which \<^verbatim>\<open>int()\<close> reads to the same number.\<close>

definition digit_of :: "char \<Rightarrow> int" where
  "digit_of c = int (of_char c) - 48"

definition decimal :: "string \<Rightarrow> int option" where
  "decimal s =
     (if s \<noteq> [] \<and> list_all (\<lambda>c. 0 \<le> digit_of c \<and> digit_of c \<le> 9) s
      then Some (foldl (\<lambda>n c. 10 * n + digit_of c) 0 s) else None)"

text \<open>The two records of the end-to-end scenario of the specification (without the urls
  the scenario leaves out), and the same vacancy as the server sends it,
  its ids being strings.\<close>

definition record_a :: pyval where
  "record_a = PDict
     [(''id'', PInt 1), (''name'', PStr ''A''),
      (''area'', PDict [(''id'', PInt 1), (''name'', PStr ''Moscow'')]),
      (''employer'', PDict [(''id'', PInt 10), (''name'', PStr ''Acme'')]),
      (''salary'', PDict [(''from'', PInt 1000)]), (''url'', PStr ''u1'')]"

definition record_b :: pyval where
  "record_b = PDict
     [(''id'', PInt 2), (''name'', PStr ''B''),
      (''area'', PDict [(''id'', PInt 1), (''name'', PStr ''Moscow'')]),
      (''employer'', PDict [(''id'', PInt 11), (''name'', PStr ''Beta'')]),
      (''salary'', PDict [(''from'', PInt 2000)]), (''url'', PStr ''u2'')]"

definition record_c :: pyval where
  "record_c = PDict
     [(''id'', PStr ''93''), (''name'', PStr ''C''),
      (''area'', PDict [(''id'', PStr ''2''), (''name'', PStr ''Kazan''), (''url'', PStr ''a2'')]),
      (''employer'', PDict [(''id'', PStr ''10''), (''name'', PStr ''Acme''), (''url'', PStr ''e10'')]),
      (''salary'', PDict [(''from'', PNone), (''to'', PInt 500)]), (''url'', PStr ''u3'')]"

text \<open>Records that lack a nested object.\<close>

definition record_no_area :: pyval where
  "record_no_area = PDict
     [(''id'', PInt 3), (''name'', PStr ''D''),
      (''employer'', PDict [(''id'', PInt 10), (''name'', PStr ''Acme'')]),
      (''salary'', PDict [(''from'', PInt 1000)]), (''url'', PStr ''u4'')]"

definition record_no_employer :: pyval where
  "record_no_employer = PDict
     [(''id'', PInt 4), (''name'', PStr ''E''),
      (''area'', PDict [(''id'', PInt 1), (''name'', PStr ''Moscow'')]),
      (''salary'', PDict [(''from'', PInt 1000)]), (''url'', PStr ''u5'')]"

text \<open>Two records that share the area id 42 and the employer id \<open>'7'\<close>, with
  different names.\<close>

definition record_first :: pyval where
  "record_first = PDict
     [(''id'', PInt 5), (''name'', PStr ''V''),
      (''area'', PDict [(''id'', PInt 42), (''name'', PStr ''First''), (''url'', PStr ''a'')]),
      (''employer'', PDict [(''id'', PStr ''7''), (''name'', PStr ''Old''), (''url'', PStr ''e'')])]"

definition record_second :: pyval where
  "record_second = PDict
     [(''id'', PInt 6), (''name'', PStr ''W''),
      (''area'', PDict [(''id'', PInt 42), (''name'', PStr ''Second''), (''url'', PStr ''b'')]),
      (''employer'', PDict [(''id'', PStr ''7''), (''name'', PStr ''New''), (''url'', PStr ''f'')])]"

subsection \<open>Example transports\<close>

text \<open>
  Transports for the examples. \<open>serve status f p\<close> answers the lookup of an employer
  \<open>e\<close> with the status \<open>status e\<close> and every list request with the items \<open>f k\<close> of the
  page \<open>k\<close> asked for and the page count \<open>p\<close>. \<open>serve_until k f p\<close> knows every
  employer and serves the pages before \<open>k\<close>; for the others \<^verbatim>\<open>requests.get\<close> raises.
\<close>

definition page_body :: "pyval list \<Rightarrow> int \<Rightarrow> pyval" where
  "page_body vs pages = PDict [(''items'', PList vs), (''pages'', PInt pages)]"

definition serve :: "(pyval \<Rightarrow> int) \<Rightarrow> (int \<Rightarrow> pyval list) \<Rightarrow> int \<Rightarrow> transport" where
  "serve status f p = (\<lambda>t req.
     case req of
       GetEmployer e \<Rightarrow> Some \<lparr>status_code = status e, json = None\<rparr>
     | GetVacancies h q \<Rightarrow> Some \<lparr>status_code = 200, json = Some (page_body (f (page q)) p)\<rparr>)"

definition serve_until :: "int \<Rightarrow> (int \<Rightarrow> pyval list) \<Rightarrow> int \<Rightarrow> transport" where
  "serve_until k f p = (\<lambda>t req.
     case req of
       GetEmployer e \<Rightarrow> Some \<lparr>status_code = 200, json = None\<rparr>
     | GetVacancies h q \<Rightarrow>
         if page q < k then Some \<lparr>status_code = 200, json = Some (page_body (f (page q)) p)\<rparr>
         else None)"

text \<open>A transport that answers every request with the same status and no JSON body.\<close>

definition always_status :: "int \<Rightarrow> transport" where
  "always_status s = (\<lambda>t req. Some \<lparr>status_code = s, json = None\<rparr>)"

section \<open>Properties\<close>

subsection \<open>Auxiliary facts\<close>

lemma and_then_Inr [simp]: "and_then (Inr v) f = f v"
  by (simp add: and_then_def)

lemma and_then_Inl [simp]: "and_then (Inl e) f = Inl e"
  by (simp add: and_then_def)

lemma well_formed_row:
  assumes "well_formed s2i v"
  shows "\<exists>row. vacancy_row s2i v = Inr row"
proof -
  from assms obtain kvs where v: "v = PDict kvs"
    by (cases v) (simp_all add: well_formed_def)
  from assms v obtain a e where a: "map_of kvs ''area'' = Some a" "has_int_id s2i a"
    and e: "map_of kvs ''employer'' = Some e" "has_int_id s2i e"
    and i: "has_int_id s2i (PDict kvs)"
    and s: "case map_of kvs ''salary'' of None \<Rightarrow> True | Some s \<Rightarrow> is_dict s"
    by (auto simp: well_formed_def split: option.splits)
  from a(2) obtain akvs an where ad: "a = PDict akvs"
     and an: "py_int s2i (case map_of akvs ''id'' of None \<Rightarrow> PNone | Some x \<Rightarrow> x) = Inr an"
    by (cases a) (auto simp: has_int_id_def split: sum.splits)
  from e(2) obtain ekvs en where ed: "e = PDict ekvs"
     and en: "py_int s2i (case map_of ekvs ''id'' of None \<Rightarrow> PNone | Some x \<Rightarrow> x) = Inr en"
    by (cases e) (auto simp: has_int_id_def split: sum.splits)
  from i obtain n where n: "py_int s2i (case map_of kvs ''id'' of None \<Rightarrow> PNone | Some x \<Rightarrow> x) = Inr n"
    by (auto simp: has_int_id_def split: sum.splits)
  have "\<exists>skvs. (case map_of kvs ''salary'' of None \<Rightarrow> PDict [] | Some x \<Rightarrow> x) = PDict skvs"
    using s by (cases "map_of kvs ''salary''") (auto elim: is_dict.elims)
  then obtain skvs where
    sk: "(case map_of kvs ''salary'' of None \<Rightarrow> PDict [] | Some x \<Rightarrow> x) = PDict skvs" ..
  show ?thesis
    unfolding vacancy_row_def v
    by (simp add: a e ad ed an en n sk)
qed

lemma get_vacancies_loop_rows:
  assumes "\<forall>v\<in>set ds. well_formed s2i v"
  shows "\<exists>rows. get_vacancies_loop s2i ds acc = Inr (acc @ rows) \<and> length rows = length ds \<and>
           (\<forall>i<length ds. vacancy_row s2i (ds ! i) = Inr (rows ! i))"
  using assms
proof (induction ds arbitrary: acc)
  case Nil
  then show ?case by simp
next
  case (Cons v ds)
  from Cons.prems obtain row where row: "vacancy_row s2i v = Inr row"
    using well_formed_row by force
  from Cons.IH [of "acc @ [row]"] Cons.prems obtain rows where
    rows: "get_vacancies_loop s2i ds ((acc @ [row])) = Inr ((acc @ [row]) @ rows)"
      "length rows = length ds" "\<forall>i<length ds. vacancy_row s2i (ds ! i) = Inr (rows ! i)"
    by auto
  have "\<forall>i<length (v # ds). vacancy_row s2i ((v # ds) ! i) = Inr ((row # rows) ! i)"
    using row rows(3) by (auto simp: nth_Cons split: nat.splits)
  then show ?case
    using row rows(1,2) by (intro exI [of _ "row # rows"]) simp
qed

lemma get_areas_loop_fails:
  assumes "v \<in> set ds" and "\<And>rest acc. \<exists>e. get_areas_loop (v # rest) acc = Inl e"
  shows "\<exists>e. get_areas_loop ds acc = Inl e"
  using assms(1)
proof (induction ds arbitrary: acc)
  case Nil
  then show ?case by simp
next
  case (Cons x xs)
  show ?case
  proof (cases "x = v")
    case True
    then show ?thesis using assms(2) by simp
  next
    case False
    with Cons.prems have "v \<in> set xs" by simp
    from Cons.IH [OF this] show ?thesis
      by (auto simp: and_then_def split: sum.splits)
  qed
qed

lemma get_employers_loop_fails:
  assumes "v \<in> set ds" and "\<And>rest acc. \<exists>e. get_employers_loop (v # rest) acc = Inl e"
  shows "\<exists>e. get_employers_loop ds acc = Inl e"
  using assms(1)
proof (induction ds arbitrary: acc)
  case Nil
  then show ?case by simp
next
  case (Cons x xs)
  show ?case
  proof (cases "x = v")
    case True
    then show ?thesis using assms(2) by simp
  next
    case False
    with Cons.prems have "v \<in> set xs" by simp
    from Cons.IH [OF this] show ?thesis
      by (auto simp: and_then_def split: sum.splits)
  qed
qed

lemma get_vacancies_loop_fails:
  assumes "v \<in> set ds" and "\<exists>e. vacancy_row s2i v = Inl e"
  shows "\<exists>e. get_vacancies_loop s2i ds acc = Inl e"
  using assms(1)
proof (induction ds arbitrary: acc)
  case Nil
  then show ?case by simp
next
  case (Cons x xs)
  show ?case
  proof (cases "x = v")
    case True
    then show ?thesis using assms(2) by auto
  next
    case False
    with Cons.prems have "v \<in> set xs" by simp
    from Cons.IH [OF this] show ?thesis
      by (auto simp: and_then_def split: sum.splits)
  qed
qed

lemma no_employer_row:
  assumes "map_of kvs ''employer'' = None"
  shows "vacancy_row s2i (PDict kvs) = Inl AttributeError"
proof (cases "py_get (case map_of kvs ''salary'' of None \<Rightarrow> PDict [] | Some x \<Rightarrow> x) ''from'' PNone")
  case (Inl e)
  then have "e = AttributeError"
    by (cases "case map_of kvs ''salary'' of None \<Rightarrow> PDict [] | Some x \<Rightarrow> x") simp_all
  with Inl show ?thesis by (simp add: vacancy_row_def)
next
  case (Inr sf)
  then show ?thesis using assms by (simp add: vacancy_row_def)
qed


lemma and_then_eq_Inr: "and_then r f = Inr y \<longleftrightarrow> (\<exists>v. r = Inr v \<and> f v = Inr y)"
  by (cases r) simp_all

lemma row_has_area:
  assumes "vacancy_row s2i (PDict kvs) = Inr row"
  shows "map_of kvs ''area'' \<noteq> None"
proof
  assume none: "map_of kvs ''area'' = None"
  from assms show False
    unfolding vacancy_row_def and_then_eq_Inr
    by (auto simp: none)
qed

lemma no_area_row:
  assumes "map_of kvs ''area'' = None"
  shows "\<exists>e. vacancy_row s2i (PDict kvs) = Inl e"
  using row_has_area [of s2i kvs] assms
  by (cases "vacancy_row s2i (PDict kvs)") auto

lemma no_area_type_error:
  assumes "map_of kvs ''area'' = None"
    and "well_formed s2i (PDict ((''area'', PDict [(''id'', PInt 1)]) # kvs))"
  shows "vacancy_row s2i (PDict kvs) = Inl TypeError"
proof -
  from assms(2) obtain e where e: "map_of kvs ''employer'' = Some e" "has_int_id s2i e"
    and i: "has_int_id s2i (PDict kvs)"
    and s: "case map_of kvs ''salary'' of None \<Rightarrow> True | Some s \<Rightarrow> is_dict s"
    by (auto simp: well_formed_def has_int_id_def split: option.splits)
  from e(2) obtain ekvs en where ed: "e = PDict ekvs"
     and en: "py_int s2i (case map_of ekvs ''id'' of None \<Rightarrow> PNone | Some x \<Rightarrow> x) = Inr en"
    by (cases e) (auto simp: has_int_id_def split: sum.splits)
  from i obtain n where n: "py_int s2i (case map_of kvs ''id'' of None \<Rightarrow> PNone | Some x \<Rightarrow> x) = Inr n"
    by (auto simp: has_int_id_def split: sum.splits)
  have "\<exists>skvs. (case map_of kvs ''salary'' of None \<Rightarrow> PDict [] | Some x \<Rightarrow> x) = PDict skvs"
    using s by (cases "map_of kvs ''salary''") (auto elim: is_dict.elims)
  then obtain skvs where
    sk: "(case map_of kvs ''salary'' of None \<Rightarrow> PDict [] | Some x \<Rightarrow> x) = PDict skvs" ..
  show ?thesis
    unfolding vacancy_row_def
    by (simp add: assms(1) e ed en n sk)
qed

lemma dict_lookup_cong: "py_eq a b \<Longrightarrow> dict_lookup d a = dict_lookup d b"
  by (induction d) (auto simp: py_eq_def)

lemma dict_lookup_append:
  "dict_lookup (d @ [(k', v)]) k =
     (case dict_lookup d k of Some x \<Rightarrow> Some x | None \<Rightarrow> if py_eq k' k then Some v else None)"
  by (induction d) auto

lemma dict_lookup_None_iff:
  "dict_lookup d k = None \<longleftrightarrow> norm_key k \<notin> set (map (\<lambda>kv. norm_key (fst kv)) d)"
proof (induction d)
  case Nil
  show ?case by simp
next
  case (Cons kv d)
  obtain k' v where kv: "kv = (k', v)" by (cases kv)
  show ?case
    unfolding kv using Cons.IH by (cases "norm_key k' = norm_key k") (simp_all add: py_eq_def eq_commute)
qed

lemma get_areas_loop_step:
  assumes "get_areas_loop (v # ds) acc = Inr areas"
  shows "is_dict v \<and> is_dict (value_at ''area'' v) \<and> hashable (value_at ''id'' (value_at ''area'' v)) \<and>
         get_areas_loop ds
           (if dict_lookup acc (value_at ''id'' (value_at ''area'' v)) \<noteq> None then acc
            else acc @ [(value_at ''id'' (value_at ''area'' v), area_entry (value_at ''area'' v))]) = Inr areas"
proof -
  from assms obtain kvs where v: "v = PDict kvs"
    by (cases v) simp_all
  from assms v obtain akvs where a: "value_at ''area'' v = PDict akvs"
    by (cases "value_at ''area'' v") simp_all
  from assms v a have h: "hashable (value_at ''id'' (value_at ''area'' v))"
    by (auto simp: dict_contains_def split: if_splits)
  from assms v a h show ?thesis
    by (auto simp: dict_contains_def area_entry_def split: if_splits)
qed

lemma get_areas_loop_lookup:
  assumes "get_areas_loop ds acc = Inr areas"
  shows "dict_lookup areas k =
           (case dict_lookup acc k of Some x \<Rightarrow> Some x
            | None \<Rightarrow> map_option area_entry (first_seen ''area'' ds k))"
  using assms
proof (induction ds arbitrary: acc)
  case Nil
  then show ?case by (simp split: option.split)
next
  case (Cons v ds)
  let ?a = "value_at ''area'' v"
  let ?i = "value_at ''id'' ?a"
  from get_areas_loop_step [OF Cons.prems]
  have step: "get_areas_loop ds
           (if dict_lookup acc ?i \<noteq> None then acc else acc @ [(?i, area_entry ?a)]) = Inr areas"
    by simp
  show ?case
  proof (cases "dict_lookup acc ?i = None")
    case True
    with step have "get_areas_loop ds (acc @ [(?i, area_entry ?a)]) = Inr areas" by simp
    from Cons.IH [OF this] show ?thesis
      by (simp add: dict_lookup_append split: option.split)
  next
    case False
    with step have "get_areas_loop ds acc = Inr areas" by simp
    from Cons.IH [OF this] False show ?thesis
      using dict_lookup_cong [of ?i k acc] by (auto split: option.split)
  qed
qed

lemma get_areas_loop_distinct:
  assumes "get_areas_loop ds acc = Inr areas" and "distinct_keys acc"
  shows "distinct_keys areas"
  using assms
proof (induction ds arbitrary: acc)
  case Nil
  then show ?case by simp
next
  case (Cons v ds)
  let ?a = "value_at ''area'' v"
  let ?i = "value_at ''id'' ?a"
  from get_areas_loop_step [OF Cons.prems(1)]
  have step: "get_areas_loop ds
           (if dict_lookup acc ?i \<noteq> None then acc else acc @ [(?i, area_entry ?a)]) = Inr areas"
    by simp
  have "distinct_keys (if dict_lookup acc ?i \<noteq> None then acc else acc @ [(?i, area_entry ?a)])"
    using Cons.prems(2) by (auto simp: distinct_keys_def dict_lookup_None_iff)
  from Cons.IH [OF step this] show ?case .
qed

lemma get_areas_loop_returns:
  assumes "\<forall>v\<in>set ds. has_object ''area'' v"
  shows "\<exists>areas. get_areas_loop ds acc = Inr areas"
  using assms
proof (induction ds arbitrary: acc)
  case Nil
  then show ?case by simp
next
  case (Cons v ds)
  then obtain kvs akvs where "v = PDict kvs" "value_at ''area'' v = PDict akvs"
    "hashable (value_at ''id'' (value_at ''area'' v))"
    by (auto simp: has_object_def elim!: is_dict.elims)
  with Cons show ?case
    by (auto simp: dict_contains_def)
qed

lemma get_employers_loop_step:
  assumes "get_employers_loop (v # ds) acc = Inr employers"
  shows "is_dict v \<and> is_dict (value_at ''employer'' v) \<and> hashable (value_at ''id'' (value_at ''employer'' v)) \<and>
         get_employers_loop ds
           (if dict_lookup acc (value_at ''id'' (value_at ''employer'' v)) \<noteq> None then acc
            else acc @ [(value_at ''id'' (value_at ''employer'' v), employer_entry (value_at ''employer'' v))]) = Inr employers"
proof -
  from assms obtain kvs where v: "v = PDict kvs"
    by (cases v) simp_all
  from assms v obtain akvs where a: "value_at ''employer'' v = PDict akvs"
    by (cases "value_at ''employer'' v") simp_all
  from assms v a have h: "hashable (value_at ''id'' (value_at ''employer'' v))"
    by (auto simp: dict_contains_def split: if_splits)
  from assms v a h show ?thesis
    by (auto simp: dict_contains_def employer_entry_def split: if_splits)
qed

lemma get_employers_loop_lookup:
  assumes "get_employers_loop ds acc = Inr employers"
  shows "dict_lookup employers k =
           (case dict_lookup acc k of Some x \<Rightarrow> Some x
            | None \<Rightarrow> map_option employer_entry (first_seen ''employer'' ds k))"
  using assms
proof (induction ds arbitrary: acc)
  case Nil
  then show ?case by (simp split: option.split)
next
  case (Cons v ds)
  let ?a = "value_at ''employer'' v"
  let ?i = "value_at ''id'' ?a"
  from get_employers_loop_step [OF Cons.prems]
  have step: "get_employers_loop ds
           (if dict_lookup acc ?i \<noteq> None then acc else acc @ [(?i, employer_entry ?a)]) = Inr employers"
    by simp
  show ?case
  proof (cases "dict_lookup acc ?i = None")
    case True
    with step have "get_employers_loop ds (acc @ [(?i, employer_entry ?a)]) = Inr employers" by simp
    from Cons.IH [OF this] show ?thesis
      by (simp add: dict_lookup_append split: option.split)
  next
    case False
    with step have "get_employers_loop ds acc = Inr employers" by simp
    from Cons.IH [OF this] False show ?thesis
      using dict_lookup_cong [of ?i k acc] by (auto split: option.split)
  qed
qed

lemma get_employers_loop_distinct:
  assumes "get_employers_loop ds acc = Inr employers" and "distinct_keys acc"
  shows "distinct_keys employers"
  using assms
proof (induction ds arbitrary: acc)
  case Nil
  then show ?case by simp
next
  case (Cons v ds)
  let ?a = "value_at ''employer'' v"
  let ?i = "value_at ''id'' ?a"
  from get_employers_loop_step [OF Cons.prems(1)]
  have step: "get_employers_loop ds
           (if dict_lookup acc ?i \<noteq> None then acc else acc @ [(?i, employer_entry ?a)]) = Inr employers"
    by simp
  have "distinct_keys (if dict_lookup acc ?i \<noteq> None then acc else acc @ [(?i, employer_entry ?a)])"
    using Cons.prems(2) by (auto simp: distinct_keys_def dict_lookup_None_iff)
  from Cons.IH [OF step this] show ?case .
qed

lemma get_employers_loop_returns:
  assumes "\<forall>v\<in>set ds. has_object ''employer'' v"
  shows "\<exists>employers. get_employers_loop ds acc = Inr employers"
  using assms
proof (induction ds arbitrary: acc)
  case Nil
  then show ?case by simp
next
  case (Cons v ds)
  then obtain kvs akvs where "v = PDict kvs" "value_at ''employer'' v = PDict akvs"
    "hashable (value_at ''id'' (value_at ''employer'' v))"
    by (auto simp: has_object_def elim!: is_dict.elims)
  with Cons show ?case
    by (auto simp: dict_contains_def)
qed

lemma page_count_SomeD:
  assumes "page_count r = Some p"
  shows "\<exists>resp body. r = Some resp \<and> \<not> raise_for_status resp \<and> json resp = Some body \<and>
           py_getitem body ''items'' = Inr (PList (page_items r)) \<and>
           py_getitem body ''pages'' = Inr (PInt p)"
  using assms
  by (auto simp: page_count_def page_items_def split: option.splits if_splits sum.splits pyval.splits)

lemma fetch_page_ok:
  assumes "page_count (net (length (trace st)) (GetVacancies headers (params st))) = Some p"
  shows "fetch_page net st =
     (if p - 1 \<le> page (params st)
      then Break (st\<lparr>data := data st @ page_items (net (length (trace st)) (GetVacancies headers (params st))),
                     trace := trace st @ [GetVacancies headers (params st)]\<rparr>)
      else Continue (st\<lparr>params := (params st)\<lparr>page := page (params st) + 1\<rparr>,
                        data := data st @ page_items (net (length (trace st)) (GetVacancies headers (params st))),
                        trace := trace st @ [GetVacancies headers (params st)]\<rparr>))"
proof -
  from page_count_SomeD [OF assms] obtain resp body where
    "net (length (trace st)) (GetVacancies headers (params st)) = Some resp"
    "\<not> raise_for_status resp" "json resp = Some body"
    "py_getitem body ''items'' = Inr (PList (page_items (net (length (trace st)) (GetVacancies headers (params st)))))"
    "py_getitem body ''pages'' = Inr (PInt p)"
    by blast
  then show ?thesis
    by (simp add: fetch_page_def send_def py_sub_def)
qed

lemma fetch_page_failed:
  assumes "failed (net (length (trace st)) (GetVacancies headers (params st)))"
  shows "fetch_page net st = Break (st\<lparr>trace := trace st @ [GetVacancies headers (params st)]\<rparr>)"
  using assms by (auto simp: fetch_page_def send_def failed_def split: option.splits)

lemma fetch_page_data: "prefix (data st) (data (step_client (fetch_page net st)))"
  by (simp add: fetch_page_def send_def Let_def split: option.split sum.split)

lemma fetch_page_lookups: "lookups (trace (step_client (fetch_page net st))) = lookups (trace st)"
  by (simp add: fetch_page_def send_def Let_def lookups_def split: option.split sum.split)

lemma fetch_pages_Continue: "fetch_page net st = Continue st1 \<Longrightarrow> fetch_pages net st = fetch_pages net st1"
  by (subst fetch_pages.simps) simp

lemma fetch_pages_Break: "fetch_page net st = Break st1 \<Longrightarrow> fetch_pages net st = Some (Inr (), st1)"
  by (subst fetch_pages.simps) simp

lemma fetch_pages_data:
  assumes "fetch_pages net st = Some y"
  shows "prefix (data st) (data (snd y))"
proof (rule fetch_pages.raw_induct [where P = "\<lambda>net st y. prefix (data st) (data (snd y))", OF _ assms])
  fix f net st y
  assume IH: "\<And>net st y. f net st = Some y \<Longrightarrow> prefix (data st) (data (snd y))"
    and step: "(case fetch_page net st of Break st1 \<Rightarrow> Some (Inr (), st1)
        | Raise e st1 \<Rightarrow> Some (Inl e, st1) | Continue st1 \<Rightarrow> f net st1) = Some y"
  have one: "prefix (data st) (data (step_client (fetch_page net st)))"
    by (rule fetch_page_data)
  show "prefix (data st) (data (snd y))"
  proof (cases "fetch_page net st")
    case (Break st1)
    with step one show ?thesis by auto
  next
    case (Raise e st1)
    with step one show ?thesis by auto
  next
    case (Continue st1)
    with step have "f net st1 = Some y" by simp
    from IH [OF this] one Continue show ?thesis by simp
  qed
qed

lemma fetch_pages_lookups:
  assumes "fetch_pages net st = Some y"
  shows "lookups (trace (snd y)) = lookups (trace st)"
proof (rule fetch_pages.raw_induct [where P = "\<lambda>net st y. lookups (trace (snd y)) = lookups (trace st)", OF _ assms])
  fix f net st y
  assume IH: "\<And>net st y. f net st = Some y \<Longrightarrow> lookups (trace (snd y)) = lookups (trace st)"
    and step: "(case fetch_page net st of Break st1 \<Rightarrow> Some (Inr (), st1)
        | Raise e st1 \<Rightarrow> Some (Inl e, st1) | Continue st1 \<Rightarrow> f net st1) = Some y"
  have one: "lookups (trace (step_client (fetch_page net st))) = lookups (trace st)"
    by (rule fetch_page_lookups)
  show "lookups (trace (snd y)) = lookups (trace st)"
  proof (cases "fetch_page net st")
    case (Break st1)
    with step one show ?thesis by auto
  next
    case (Raise e st1)
    with step one show ?thesis by auto
  next
    case (Continue st1)
    with step have "f net st1 = Some y" by simp
    from IH [OF this] one Continue show ?thesis by simp
  qed
qed

lemma load_vacancy_data:
  assumes "load_vacancy_by_emp_id net e st = Some y"
  shows "prefix (data st) (data (snd y))"
proof (cases "valid_id e")
  case (Inl err)
  with assms show ?thesis by (auto simp: load_vacancy_by_emp_id_def)
next
  case (Inr eid)
  show ?thesis
  proof (cases "fst (check_existence net eid st)")
    case (Inl err)
    with assms Inr show ?thesis
      by (auto simp: load_vacancy_by_emp_id_def check_existence_def send_def
          split: prod.splits option.splits if_splits)
  next
    case ok: (Inr b)
    with assms Inr have "fetch_pages net
        ((snd (check_existence net eid st))\<lparr>params := (params (snd (check_existence net eid st)))\<lparr>employer_id := Some eid, page := 0\<rparr>\<rparr>) = Some y"
      by (auto simp: load_vacancy_by_emp_id_def split: prod.splits)
    from fetch_pages_data [OF this] show ?thesis
      by (simp add: check_existence_def send_def split: prod.splits option.splits if_splits)
  qed
qed

lemma load_vacancies_data:
  "load_vacancies_by_emp_ids net es st = Some y \<Longrightarrow> prefix (data st) (data (snd y))"
proof (induction es arbitrary: st)
  case Nil
  then show ?case by auto
next
  case (Cons e es)
  from Cons.prems obtain r st1 where one: "load_vacancy_by_emp_id net e st = Some (r, st1)"
    by (cases "load_vacancy_by_emp_id net e st") auto
  from load_vacancy_data [OF one] have p1: "prefix (data st) (data st1)" by simp
  show ?case
  proof (cases r)
    case (Inl err)
    with Cons.prems one p1 show ?thesis by auto
  next
    case (Inr u)
    with Cons.prems one have "load_vacancies_by_emp_ids net es st1 = Some y" by simp
    from Cons.IH [OF this] p1 show ?thesis by (rule prefix_order.trans [rotated])
  qed
qed

lemma after_pages_0: "after_pages net st 0 = st"
  by (simp add: after_pages_def)

lemma fetch_pages_run:
  assumes "\<forall>j<k. \<exists>p. page_count (net (length (trace st) + j)
              (GetVacancies headers ((params st)\<lparr>page := page (params st) + int j\<rparr>))) = Some p \<and>
            page (params st) + int j < p - 1"
  shows "fetch_pages net st = fetch_pages net (after_pages net st k)"
  using assms
proof (induction k)
  case 0
  show ?case by (simp add: after_pages_0)
next
  case (Suc k)
  let ?s = "after_pages net st k"
  from Suc have run: "fetch_pages net st = fetch_pages net ?s" by simp
  from Suc.prems obtain p where
    p: "page_count (net (length (trace st) + k)
              (GetVacancies headers ((params st)\<lparr>page := page (params st) + int k\<rparr>))) = Some p"
       "page (params st) + int k < p - 1"
    by blast
  have s: "length (trace ?s) = length (trace st) + k"
          "params ?s = (params st)\<lparr>page := page (params st) + int k\<rparr>"
    by (simp_all add: after_pages_def)
  from p(1) have "page_count (net (length (trace ?s)) (GetVacancies headers (params ?s))) = Some p"
    by (simp add: s)
  from fetch_page_ok [of net ?s p, OF this] p(2)
  have "fetch_page net ?s = Continue (after_pages net st (Suc k))"
    by (simp add: s) (simp add: after_pages_def add.assoc)
  from fetch_pages_Continue [OF this] run show ?case by simp
qed

lemma load_vacancy_started:
  assumes "valid_id e = Inr e" and "net (length (trace st)) (GetEmployer e) = Some resp"
    and "status_code resp = 200"
  shows "load_vacancy_by_emp_id net e st = fetch_pages net (started st e)"
  using assms by (simp add: load_vacancy_by_emp_id_def check_existence_def send_def started_def)

lemma after_pages_started:
  "params (after_pages net (started st e) k) = (params st)\<lparr>employer_id := Some e, page := int k\<rparr>"
  "data (after_pages net (started st e) k) =
     data st @ concat (map (\<lambda>j. page_items (answer net st e j)) [0..<k])"
  "trace (after_pages net (started st e) k) =
     trace st @ GetEmployer e # map (list_request st e) [0..<k]"
  by (simp_all add: after_pages_def started_def answer_def list_request_def add.commute add.left_commute)

lemma started_run:
  assumes "\<forall>j<k. \<exists>p. page_count (answer net st e j) = Some p \<and> int j < p - 1"
  shows "fetch_pages net (started st e) = fetch_pages net (after_pages net (started st e) k)"
proof (rule fetch_pages_run)
  show "\<forall>j<k. \<exists>p. page_count (net (length (trace (started st e)) + j)
          (GetVacancies headers ((params (started st e))\<lparr>page := page (params (started st e)) + int j\<rparr>))) = Some p \<and>
          page (params (started st e)) + int j < p - 1"
    using assms
    by (simp add: started_def answer_def list_request_def add.commute add.left_commute)
qed

lemma answer_after_pages:
  "net (length (trace (after_pages net (started st e) k)))
      (GetVacancies headers (params (after_pages net (started st e) k))) = answer net st e k"
  by (simp add: after_pages_started) (simp add: answer_def list_request_def)

lemma page_requests_less: "j < page_requests p - 1 \<Longrightarrow> int j < p - 1"
  unfolding page_requests_def by arith

lemma page_requests_last: "p - 1 \<le> int (page_requests p - 1)"
  unfolding page_requests_def by arith

lemma page_requests_Suc: "Suc (page_requests p - 1) = page_requests p"
  unfolding page_requests_def by arith

lemma page_requests_cases:
  "int (page_requests p) - 1 = int (page_requests p - 1)"
  "1 \<le> p \<longrightarrow> page_requests p = nat p"
  "p \<le> 0 \<longrightarrow> page_requests p = 1"
  unfolding page_requests_def by arith+

lemma upt_page_requests: "[0..<page_requests p] = [0..<page_requests p - 1] @ [page_requests p - 1]"
proof -
  have "[0..<Suc (page_requests p - 1)] = [0..<page_requests p - 1] @ [page_requests p - 1]"
    by simp
  then show ?thesis by (simp only: page_requests_Suc)
qed

lemma load_vacancy_all_pages:
  assumes "valid_id emp_id = Inr emp_id"
    and "net (length (trace st)) (GetEmployer emp_id) = Some resp" and "status_code resp = 200"
    and "\<forall>t q. page_count (net t (GetVacancies headers q)) = Some p"
  shows "\<exists>st'. load_vacancy_by_emp_id net emp_id st = Some (Inr (), st') \<and>
           trace st' = trace st @ GetEmployer emp_id #
                         map (list_request st emp_id) [0..<page_requests p] \<and>
           data st' = data st @
                        concat (map (\<lambda>j. page_items (answer net st emp_id j)) [0..<page_requests p]) \<and>
           page (params st') = int (page_requests p) - 1 \<and>
           p - 1 \<le> page (params st') \<and>
           (1 \<le> p \<longrightarrow> page_requests p = nat p) \<and> (p \<le> 0 \<longrightarrow> page_requests p = 1)"
proof -
  let ?k = "page_requests p - 1"
  let ?s = "after_pages net (started st emp_id) ?k"
  let ?s' = "?s\<lparr>data := data ?s @ page_items (answer net st emp_id ?k),
                trace := trace ?s @ [GetVacancies headers (params ?s)]\<rparr>"
  have run: "\<forall>j<?k. \<exists>p. page_count (answer net st emp_id j) = Some p \<and> int j < p - 1"
  proof (intro allI impI)
    fix j assume "j < ?k"
    then have "int j < p - 1" by (rule page_requests_less)
    moreover have "page_count (answer net st emp_id j) = Some p"
      using assms(4) by (simp add: answer_def list_request_def)
    ultimately show "\<exists>p. page_count (answer net st emp_id j) = Some p \<and> int j < p - 1"
      by blast
  qed
  have pc: "page_count (net (length (trace ?s)) (GetVacancies headers (params ?s))) = Some p"
    using assms(4) by simp
  have pg: "page (params ?s) = int ?k"
    by (simp add: after_pages_started)
  have "fetch_page net ?s = Break ?s'"
    using fetch_page_ok [of net ?s p, OF pc] page_requests_last [of p]
    by (simp only: answer_after_pages pg if_True)
  from fetch_pages_Break [OF this] started_run [OF run]
    load_vacancy_started [where net = net and st = st, OF assms(1-3)]
  have load: "load_vacancy_by_emp_id net emp_id st = Some (Inr (), ?s')"
    by simp
  have t: "trace ?s' = trace st @ GetEmployer emp_id # map (list_request st emp_id) [0..<page_requests p]"
    by (subst upt_page_requests) (simp add: after_pages_started list_request_def)
  have d: "data ?s' = data st @
      concat (map (\<lambda>j. page_items (answer net st emp_id j)) [0..<page_requests p])"
    by (subst upt_page_requests) (simp add: after_pages_started)
  have g: "page (params ?s') = int (page_requests p) - 1"
    by (simp add: after_pages_started page_requests_cases(1))
  have "p - 1 \<le> page (params ?s')"
    using page_requests_last [of p] by (simp add: after_pages_started)
  with load t d g page_requests_cases(2,3) [of p] show ?thesis
    by blast
qed

lemma fetch_pages_tame:
  assumes "\<forall>t q. tame bound (net t (GetVacancies headers q))"
  shows "\<exists>st'. fetch_pages net st = Some (Inr (), st')"
proof (induction "nat (bound - page (params st))" arbitrary: st rule: less_induct)
  case less
  let ?r = "net (length (trace st)) (GetVacancies headers (params st))"
  from assms have t: "tame bound ?r" by blast
  show ?case
  proof (cases "failed ?r")
    case True
    from fetch_pages_Break [OF fetch_page_failed [of net st, OF True]] show ?thesis by blast
  next
    case False
    with t obtain p where p: "page_count ?r = Some p" "p \<le> bound"
      by (auto simp: tame_def split: option.splits)
    show ?thesis
    proof (cases "p - 1 \<le> page (params st)")
      case True
      with fetch_page_ok [of net st p, OF p(1)] obtain s where "fetch_page net st = Break s"
        by simp
      from fetch_pages_Break [OF this] show ?thesis by blast
    next
      case more: False
      with fetch_page_ok [of net st p, OF p(1)] obtain s where
        s: "fetch_page net st = Continue s" "page (params s) = page (params st) + 1"
        by simp
      from more p(2) s(2) have "nat (bound - page (params s)) < nat (bound - page (params st))"
        by simp
      from less [OF this] fetch_pages_Continue [OF s(1)] show ?thesis by simp
    qed
  qed
qed

lemma lookups_append [simp]: "lookups (xs @ ys) = lookups xs @ lookups ys"
  by (simp add: lookups_def)

lemma lookups_GetEmployer [simp]: "lookups [GetEmployer e] = [e]"
  by (simp add: lookups_def)

lemma load_vacancy_tame:
  assumes "valid_id e = Inr e"
    and "net (length (trace st)) (GetEmployer e) = Some resp" and "status_code resp = 200"
    and "\<forall>t q. tame bound (net t (GetVacancies headers q))"
  shows "\<exists>st'. load_vacancy_by_emp_id net e st = Some (Inr (), st') \<and>
           lookups (trace st') = lookups (trace st) @ [e]"
proof -
  from fetch_pages_tame [OF assms(4), of "started st e"] obtain st' where
    f: "fetch_pages net (started st e) = Some (Inr (), st')" by blast
  from fetch_pages_lookups [OF f] have "lookups (trace st') = lookups (trace st) @ [e]"
    by (simp add: started_def)
  with f load_vacancy_started [where net = net and st = st, OF assms(1-3)] show ?thesis
    by simp
qed

lemma load_vacancies_tame:
  assumes "\<forall>e\<in>set es. valid_id e = Inr e"
    and "\<forall>t. \<forall>e\<in>set es. \<exists>resp. net t (GetEmployer e) = Some resp \<and> status_code resp = 200"
    and "\<forall>t q. tame bound (net t (GetVacancies headers q))"
  shows "\<exists>st'. load_vacancies_by_emp_ids net es st = Some (Inr (), st') \<and>
           lookups (trace st') = lookups (trace st) @ es"
  using assms(1,2)
proof (induction es arbitrary: st)
  case Nil
  show ?case by simp
next
  case (Cons e es)
  from Cons.prems obtain resp where
    r: "net (length (trace st)) (GetEmployer e) = Some resp" "status_code resp = 200"
    by (meson list.set_intros(1))
  from Cons.prems have v: "valid_id e = Inr e" by simp
  from load_vacancy_tame [OF v r assms(3)] obtain st1 where
    one: "load_vacancy_by_emp_id net e st = Some (Inr (), st1)"
      "lookups (trace st1) = lookups (trace st) @ [e]"
    by blast
  from Cons.prems have "\<forall>e\<in>set es. valid_id e = Inr e"
    "\<forall>t. \<forall>e\<in>set es. \<exists>resp. net t (GetEmployer e) = Some resp \<and> status_code resp = 200"
    by simp_all
  from Cons.IH [OF this, of st1] obtain st' where
    "load_vacancies_by_emp_ids net es st1 = Some (Inr (), st')"
    "lookups (trace st') = lookups (trace st1) @ es"
    by blast
  with one show ?case by simp
qed

lemma load_vacancies_append:
  assumes "load_vacancies_by_emp_ids net xs st = Some (Inr (), st1)"
  shows "load_vacancies_by_emp_ids net (xs @ ys) st = load_vacancies_by_emp_ids net ys st1"
  using assms
proof (induction xs arbitrary: st)
  case Nil
  then show ?case by simp
next
  case (Cons x xs)
  then show ?case
    by (auto split: option.splits prod.splits sum.splits)
qed

lemma load_vacancies_invalid:
  assumes "valid_id bad = Inl err"
  shows "load_vacancies_by_emp_ids net (bad # rest) st = Some (Inl err, st)"
  using assms by (simp add: load_vacancy_by_emp_id_def)

lemma load_vacancies_not_200:
  assumes "valid_id bad = Inr bad"
    and "net (length (trace st)) (GetEmployer bad) = Some resp" and "status_code resp \<noteq> 200"
  shows "load_vacancies_by_emp_ids net (bad # rest) st =
     Some (Inl (ValueError (if status_code resp = 404 then ''Employer ID does not exist''
                            else ''Failed to check employer ID'')),
           st\<lparr>trace := trace st @ [GetEmployer bad]\<rparr>)"
  using assms by (simp add: load_vacancy_by_emp_id_def check_existence_def send_def)

lemma serve_page_count [simp]:
  "page_count (serve status f p t (GetVacancies h q)) = Some p"
  by (simp add: serve_def page_count_def page_body_def raise_for_status_def)

lemma serve_page_items [simp]:
  "page_items (serve status f p t (GetVacancies h q)) = f (page q)"
  by (simp add: serve_def page_items_def page_body_def)

lemma serve_until_page_count [simp]:
  "page_count (serve_until k f p t (GetVacancies h q)) = (if page q < k then Some p else None)"
  by (simp add: serve_until_def page_count_def page_body_def raise_for_status_def)

lemma serve_until_page_items [simp]:
  "page_items (serve_until k f p t (GetVacancies h q)) = (if page q < k then f (page q) else [])"
  by (simp add: serve_until_def page_items_def page_body_def)

lemma serve_until_failed [simp]:
  "failed (serve_until k f p t (GetVacancies h q)) = (\<not> page q < k)"
  by (simp add: serve_until_def failed_def raise_for_status_def)

lemma serve_twice:
  assumes "valid_id e = Inr e"
  shows "\<exists>st1 st2.
           load_vacancy_by_emp_id (serve (\<lambda>e. 200) (\<lambda>k. vs) 1) e st = Some (Inr (), st1) \<and>
           load_vacancy_by_emp_id (serve (\<lambda>e. 200) (\<lambda>k. vs) 1) e st1 = Some (Inr (), st2) \<and>
           data st2 = data st @ vs @ vs"
proof -
  let ?net = "serve (\<lambda>e. 200) (\<lambda>k. vs) 1"
  have u: "[0..<page_requests 1] = [0]" by (simp add: page_requests_def)
  have once: "\<exists>st'. load_vacancy_by_emp_id ?net e s = Some (Inr (), st') \<and> data st' = data s @ vs" for s
  proof -
    have 2: "?net (length (trace s)) (GetEmployer e) = Some \<lparr>status_code = 200, json = None\<rparr>"
      by (simp add: serve_def)
    have 3: "status_code \<lparr>status_code = 200, json = None\<rparr> = 200" by simp
    have 4: "\<forall>t q. page_count (?net t (GetVacancies headers q)) = Some 1" by simp
    from load_vacancy_all_pages [OF assms 2 3 4] show ?thesis
      unfolding u by (auto simp: answer_def list_request_def)
  qed
  from once [of st] obtain st1 where
    1: "load_vacancy_by_emp_id ?net e st = Some (Inr (), st1)" "data st1 = data st @ vs" by blast
  from once [of st1] obtain st2 where
    2: "load_vacancy_by_emp_id ?net e st1 = Some (Inr (), st2)" "data st2 = data st1 @ vs" by blast
  from 1 2 show ?thesis by auto
qed

lemma failed_page_count: "failed r \<Longrightarrow> page_count r = None"
  by (auto simp: failed_def page_count_def split: option.splits)

lemma tame_cases:
  assumes "tame bound r"
  shows "failed r \<or> (\<exists>p. page_count r = Some p \<and> p \<le> bound)"
  using assms by (auto simp: tame_def split: option.splits)

lemma tame_stops_eventually:
  assumes "\<forall>t q. tame bound (net t (GetVacancies headers q))"
  shows "stops net st e (nat bound)"
proof -
  have "tame bound (answer net st e (nat bound))"
    using assms by (simp add: answer_def list_request_def)
  from tame_cases [OF this] show ?thesis
  proof
    assume "failed (answer net st e (nat bound))"
    then show ?thesis by (simp add: stops_def)
  next
    assume "\<exists>p. page_count (answer net st e (nat bound)) = Some p \<and> p \<le> bound"
    then obtain p where p: "page_count (answer net st e (nat bound)) = Some p" "p \<le> bound"
      by blast
    from p(2) have "p - 1 \<le> int (nat bound)" by arith
    with p(1) show ?thesis by (simp add: stops_def)
  qed
qed

lemma tame_goes_on:
  assumes "\<forall>t q. tame bound (net t (GetVacancies headers q))" and "\<not> stops net st e j"
  shows "\<exists>p. page_count (answer net st e j) = Some p \<and> int j < p - 1"
proof -
  have "tame bound (answer net st e j)"
    using assms(1) by (simp add: answer_def list_request_def)
  from tame_cases [OF this] assms(2) show ?thesis
    by (auto simp: stops_def)
qed

lemma fetched_items_map:
  assumes "\<forall>j<k. \<exists>p. page_count (answer net st e j) = Some p \<and> int j < p - 1"
  shows "map (\<lambda>j. fetched_items (answer net st e j)) [0..<k] =
         map (\<lambda>j. page_items (answer net st e j)) [0..<k]"
  using assms by (auto simp: fetched_items_def)

lemma load_vacancy_fetched:
  assumes "valid_id e = Inr e"
    and "net (length (trace st)) (GetEmployer e) = Some resp" and "status_code resp = 200"
    and "\<forall>j<k. \<exists>p. page_count (answer net st e j) = Some p \<and> int j < p - 1"
    and "stops net st e k"
  shows "\<exists>st'. load_vacancy_by_emp_id net e st = Some (Inr (), st') \<and> fetched net e st st'"
proof -
  let ?s = "after_pages net (started st e) k"
  have ans: "net (length (trace ?s)) (GetVacancies headers (params ?s)) = answer net st e k"
    by (rule answer_after_pages)
  have pre: "load_vacancy_by_emp_id net e st = fetch_pages net ?s"
    using started_run [OF assms(4)] load_vacancy_started [where net = net and st = st, OF assms(1-3)]
    by simp
  have m: "map (\<lambda>j. fetched_items (answer net st e j)) [0..<k] =
         map (\<lambda>j. page_items (answer net st e j)) [0..<k]"
    using assms(4) by (rule fetched_items_map)
  show ?thesis
  proof (cases "failed (answer net st e k)")
    case True
    let ?s' = "?s\<lparr>trace := trace ?s @ [GetVacancies headers (params ?s)]\<rparr>"
    from True have "failed (net (length (trace ?s)) (GetVacancies headers (params ?s)))"
      by (simp only: ans)
    from fetch_pages_Break [OF fetch_page_failed [of net ?s, OF this]] pre
    have l: "load_vacancy_by_emp_id net e st = Some (Inr (), ?s')" by simp
    have f: "fetched_items (answer net st e k) = []"
      using failed_page_count [OF True] by (simp add: fetched_items_def)
    have "fetched net e st ?s'"
      unfolding fetched_def
      by (rule exI [of _ k]) (simp add: assms(4,5) after_pages_started list_request_def m f)
    with l show ?thesis by blast
  next
    case False
    with assms(5) obtain p where p: "page_count (answer net st e k) = Some p" "p - 1 \<le> int k"
      by (auto simp: stops_def split: option.splits)
    let ?s' = "?s\<lparr>data := data ?s @ page_items (answer net st e k),
                trace := trace ?s @ [GetVacancies headers (params ?s)]\<rparr>"
    have pg: "page (params ?s) = int k" by (simp add: after_pages_started)
    from p(1) have pc: "page_count (net (length (trace ?s)) (GetVacancies headers (params ?s))) = Some p"
      by (simp only: ans)
    have "fetch_page net ?s = Break ?s'"
      using fetch_page_ok [of net ?s p, OF pc] p(2)
      by (simp only: ans pg if_True)
    from fetch_pages_Break [OF this] pre
    have l: "load_vacancy_by_emp_id net e st = Some (Inr (), ?s')" by simp
    have f: "fetched_items (answer net st e k) = page_items (answer net st e k)"
      using p(1) by (simp add: fetched_items_def)
    have "fetched net e st ?s'"
      unfolding fetched_def
      by (rule exI [of _ k]) (simp add: assms(4,5) after_pages_started list_request_def m f)
    with l show ?thesis by blast
  qed
qed

lemma load_vacancy_tame_fetched:
  assumes "valid_id e = Inr e"
    and "net (length (trace st)) (GetEmployer e) = Some resp" and "status_code resp = 200"
    and "\<forall>t q. tame bound (net t (GetVacancies headers q))"
  shows "\<exists>st'. load_vacancy_by_emp_id net e st = Some (Inr (), st') \<and> fetched net e st st'"
proof -
  define k where "k = (LEAST j. stops net st e j)"
  have s: "stops net st e k"
    unfolding k_def using tame_stops_eventually [OF assms(4)] by (rule LeastI)
  have "\<forall>j<k. \<exists>p. page_count (answer net st e j) = Some p \<and> int j < p - 1"
  proof (intro allI impI)
    fix j assume "j < k"
    then have "\<not> stops net st e j"
      unfolding k_def by (rule not_less_Least)
    with assms(4) show "\<exists>p. page_count (answer net st e j) = Some p \<and> int j < p - 1"
      by (rule tame_goes_on)
  qed
  from load_vacancy_fetched [OF assms(1-3) this s] show ?thesis .
qed

lemma load_vacancies_tame_fetched:
  assumes "\<forall>e\<in>set es. valid_id e = Inr e"
    and "\<forall>t. \<forall>e\<in>set es. \<exists>resp. net t (GetEmployer e) = Some resp \<and> status_code resp = 200"
    and "\<forall>t q. tame bound (net t (GetVacancies headers q))"
    and "load_vacancies_by_emp_ids net es st = Some (Inr (), st')"
  shows "fetched_in_order net es st st'"
  using assms(1,2,4)
proof (induction es arbitrary: st)
  case Nil
  then show ?case by simp
next
  case (Cons e es)
  from Cons.prems(2) obtain resp where
    r: "net (length (trace st)) (GetEmployer e) = Some resp" "status_code resp = 200"
    by (meson list.set_intros(1))
  from Cons.prems(1) have v: "valid_id e = Inr e" by simp
  from load_vacancy_tame_fetched [OF v r assms(3)] obtain st1 where
    one: "load_vacancy_by_emp_id net e st = Some (Inr (), st1)" "fetched net e st st1"
    by blast
  from Cons.prems(3) one(1) have rest: "load_vacancies_by_emp_ids net es st1 = Some (Inr (), st')"
    by simp
  from Cons.prems have "\<forall>e\<in>set es. valid_id e = Inr e"
    "\<forall>t. \<forall>e\<in>set es. \<exists>resp. net t (GetEmployer e) = Some resp \<and> status_code resp = 200"
    by simp_all
  from Cons.IH [OF this rest] one show ?case by auto
qed

lemma first_pages_append [simp]: "first_pages (xs @ ys) = first_pages xs @ first_pages ys"
  by (simp add: first_pages_def)

lemma first_pages_GetEmployer [simp]: "first_pages (GetEmployer e # tr) = first_pages tr"
  by (simp add: first_pages_def)

lemma first_pages_later: "first_pages (map (list_request st e) [Suc i..<k]) = []"
  by (simp add: first_pages_def list_request_def)

lemma first_pages_list_requests: "first_pages (map (list_request st e) [0..<Suc k]) = [e]"
proof -
  have "[0..<Suc k] = 0 # [Suc 0..<Suc k]" by (simp add: upt_conv_Cons)
  then have "first_pages (map (list_request st e) [0..<Suc k]) =
      first_pages [list_request st e 0] @ first_pages (map (list_request st e) [Suc 0..<Suc k])"
    by (simp only: list.map first_pages_append [symmetric] append_Cons append_Nil)
  then show ?thesis
    by (simp only: first_pages_later) (simp add: first_pages_def list_request_def)
qed

lemma fetched_first_pages:
  assumes "fetched net e st st1"
  shows "first_pages (trace st1) = first_pages (trace st) @ [e]"
proof -
  from assms obtain k where
    "trace st1 = trace st @ GetEmployer e # map (list_request st e) [0..<Suc k]"
    unfolding fetched_def by blast
  then show ?thesis
    by (simp only: first_pages_append first_pages_GetEmployer first_pages_list_requests)
qed

lemma fetched_in_order_first_pages:
  "fetched_in_order net es st st' \<Longrightarrow> first_pages (trace st') = first_pages (trace st) @ es"
proof (induction es arbitrary: st)
  case Nil
  then show ?case by simp
next
  case (Cons e es)
  then obtain st1 where "fetched net e st st1" "fetched_in_order net es st1 st'" by auto
  with Cons.IH [of st1] fetched_first_pages [of net e st st1] show ?case by simp
qed

subsection \<open>Validation of an employer id\<close>

text \<open>
  Claim C5. \<^verbatim>\<open>valid_id\<close> returns every positive integer unchanged, and raises
  \<^verbatim>\<open>ValueError('Invalid employer ID')\<close> for every integer that is not positive and for
  every value that is not an instance of \<open>int\<close> (\<open>None\<close>, strings, lists, dicts). A \<open>bool\<close>
  is an instance of \<open>int\<close> in Python: \<open>True\<close> is the positive integer 1 and is returned
  unchanged, \<open>False\<close> is 0 and is rejected.
\<close>

theorem valid_id_positive_integer:
  "(\<forall>n. 0 < n \<longrightarrow> valid_id (PInt n) = Inr (PInt n)) \<and>
   (\<forall>n. n \<le> 0 \<longrightarrow> valid_id (PInt n) = Inl (ValueError ''Invalid employer ID'')) \<and>
   (\<forall>v. as_int v = None \<longrightarrow> valid_id v = Inl (ValueError ''Invalid employer ID'')) \<and>
   valid_id (PBool True) = Inr (PBool True) \<and>
   valid_id (PBool False) = Inl (ValueError ''Invalid employer ID'')"
  by (simp add: valid_id_def)

theorem valid_id_positive_integer_witness:
  "valid_id (PInt 1740) = Inr (PInt 1740) \<and>
   valid_id (PInt 0) = Inl (ValueError ''Invalid employer ID'') \<and>
   valid_id (PInt (- 5)) = Inl (ValueError ''Invalid employer ID'') \<and>
   valid_id (PStr ''1740'') = Inl (ValueError ''Invalid employer ID'') \<and>
   valid_id PNone = Inl (ValueError ''Invalid employer ID'')"
  using valid_id_positive_integer by simp

subsection \<open>Existence of an employer\<close>

text \<open>
  Claim C4. When the lookup request is answered, \<^verbatim>\<open>check_existence\<close> returns \<open>True\<close>
  exactly when the status is 200, raises \<^verbatim>\<open>ValueError('Employer ID does not exist')\<close>
  (the specification's NotFound) exactly when the status is 404, and raises
  \<^verbatim>\<open>ValueError('Failed to check employer ID')\<close> (LookupFailed) for every other status.
  The two exceptions differ (by their message), and one request is sent, with no retry.
\<close>

theorem check_existence_by_status:
  assumes "net (length (trace st)) (GetEmployer emp_id) = Some resp"
  shows "(fst (check_existence net emp_id st) = Inr True \<longleftrightarrow> status_code resp = 200) \<and>
         (fst (check_existence net emp_id st) = Inl (ValueError ''Employer ID does not exist'')
            \<longleftrightarrow> status_code resp = 404) \<and>
         (status_code resp \<noteq> 200 \<and> status_code resp \<noteq> 404 \<longrightarrow>
            fst (check_existence net emp_id st) = Inl (ValueError ''Failed to check employer ID'')) \<and>
         ValueError ''Employer ID does not exist'' \<noteq> ValueError ''Failed to check employer ID'' \<and>
         snd (check_existence net emp_id st) = st\<lparr>trace := trace st @ [GetEmployer emp_id]\<rparr>"
  using assms by (simp add: check_existence_def send_def)

theorem check_existence_by_status_witness:
  "fst (check_existence (always_status 200) (PInt 7) init_client) = Inr True \<and>
   fst (check_existence (always_status 404) (PInt 7) init_client) =
     Inl (ValueError ''Employer ID does not exist'') \<and>
   fst (check_existence (always_status 503) (PInt 7) init_client) =
     Inl (ValueError ''Failed to check employer ID'')"
  using check_existence_by_status [of "always_status 200" init_client "PInt 7" "\<lparr>status_code = 200, json = None\<rparr>"]
        check_existence_by_status [of "always_status 404" init_client "PInt 7" "\<lparr>status_code = 404, json = None\<rparr>"]
        check_existence_by_status [of "always_status 503" init_client "PInt 7" "\<lparr>status_code = 503, json = None\<rparr>"]
  by (simp add: always_status_def)

subsection \<open>The flattened vacancy list\<close>

text \<open>
  Claim C7. On an accumulated list of well-formed records \<^verbatim>\<open>get_vacancies\<close> returns a
  list of the same length whose \<open>i\<close>-th element is the flattened row of the \<open>i\<close>-th
  record: one row per record, in the order of the accumulated list, nothing dropped
  and nothing merged.
\<close>

theorem get_vacancies_one_row_per_record:
  assumes "\<forall>v\<in>set (data st). well_formed str_to_int v"
  shows "\<exists>rows. fst (get_vacancies str_to_int st) = Inr rows \<and>
           length rows = length (data st) \<and>
           (\<forall>i<length (data st). vacancy_row str_to_int (data st ! i) = Inr (rows ! i))"
  using get_vacancies_loop_rows [OF assms, of "[]"] by (simp add: get_vacancies_def)

theorem get_vacancies_one_row_per_record_witness:
  "well_formed decimal record_a \<and> well_formed decimal record_c \<and>
   fst (get_vacancies decimal (init_client\<lparr>data := [record_a, record_c, record_a]\<rparr>)) =
     Inr [PDict [(''id'', PInt 1), (''name'', PStr ''A''), (''area_id'', PInt 1),
                 (''salary'', PInt 1000), (''employer_id'', PInt 10), (''url'', PStr ''u1'')],
          PDict [(''id'', PInt 93), (''name'', PStr ''C''), (''area_id'', PInt 2),
                 (''salary'', PNone), (''employer_id'', PInt 10), (''url'', PStr ''u3'')],
          PDict [(''id'', PInt 1), (''name'', PStr ''A''), (''area_id'', PInt 1),
                 (''salary'', PInt 1000), (''employer_id'', PInt 10), (''url'', PStr ''u1'')]]"
proof -
  have wf: "well_formed decimal record_a" "well_formed decimal record_c"
    by (simp_all add: well_formed_def has_int_id_def record_a_def record_c_def decimal_def digit_of_def)
  have rows: "vacancy_row decimal record_a = Inr (PDict [(''id'', PInt 1), (''name'', PStr ''A''), (''area_id'', PInt 1),
                 (''salary'', PInt 1000), (''employer_id'', PInt 10), (''url'', PStr ''u1'')])"
     "vacancy_row decimal record_c = Inr (PDict [(''id'', PInt 93), (''name'', PStr ''C''), (''area_id'', PInt 2),
                 (''salary'', PNone), (''employer_id'', PInt 10), (''url'', PStr ''u3'')])"
    by (simp_all add: vacancy_row_def record_a_def record_c_def decimal_def digit_of_def)
  have "\<forall>v\<in>set (data (init_client\<lparr>data := [record_a, record_c, record_a]\<rparr>)). well_formed decimal v"
    using wf by simp
  from get_vacancies_one_row_per_record [OF this] 
  have "fst (get_vacancies decimal (init_client\<lparr>data := [record_a, record_c, record_a]\<rparr>)) = 
     Inr [PDict [(''id'', PInt 1), (''name'', PStr ''A''), (''area_id'', PInt 1),
                 (''salary'', PInt 1000), (''employer_id'', PInt 10), (''url'', PStr ''u1'')],
          PDict [(''id'', PInt 93), (''name'', PStr ''C''), (''area_id'', PInt 2),
                 (''salary'', PNone), (''employer_id'', PInt 10), (''url'', PStr ''u3'')],
          PDict [(''id'', PInt 1), (''name'', PStr ''A''), (''area_id'', PInt 1),
                 (''salary'', PInt 1000), (''employer_id'', PInt 10), (''url'', PStr ''u1'')]]"
    by (simp add: get_vacancies_def rows)
  with wf show ?thesis by simp
qed

text \<open>
  Claim C8. A record without the key \<open>area\<close> makes \<^verbatim>\<open>get_vacancies\<close> raise: the default
  \<^verbatim>\<open>{'id': None}\<close> stands for the area, its id is \<open>None\<close>, and \<^verbatim>\<open>int(None)\<close> raises
  \<open>TypeError\<close>. The record is neither skipped nor given a default: its row is an
  exception (a \<open>TypeError\<close> when the rest of the record is well formed), and so is the
  result of \<^verbatim>\<open>get_vacancies\<close> on every accumulated list that holds the record.
\<close>

theorem missing_area_fails_get_vacancies:
  assumes "map_of kvs ''area'' = None"
  shows "and_then (py_get (PDict kvs) ''area'' (PDict [(''id'', PNone)]))
           (\<lambda>area. and_then (py_get area ''id'' PNone) (py_int str_to_int)) = Inl TypeError \<and>
         (\<exists>e. vacancy_row str_to_int (PDict kvs) = Inl e) \<and>
         (well_formed str_to_int (PDict ((''area'', PDict [(''id'', PInt 1)]) # kvs)) \<longrightarrow>
            vacancy_row str_to_int (PDict kvs) = Inl TypeError) \<and>
         (PDict kvs \<in> set (data st) \<longrightarrow> (\<exists>e. fst (get_vacancies str_to_int st) = Inl e))"
proof (intro conjI impI)
  show "and_then (py_get (PDict kvs) ''area'' (PDict [(''id'', PNone)]))
           (\<lambda>area. and_then (py_get area ''id'' PNone) (py_int str_to_int)) = Inl TypeError"
    using assms by simp
  show "\<exists>e. vacancy_row str_to_int (PDict kvs) = Inl e"
    using assms by (rule no_area_row)
  show "vacancy_row str_to_int (PDict kvs) = Inl TypeError"
    if "well_formed str_to_int (PDict ((''area'', PDict [(''id'', PInt 1)]) # kvs))"
    using assms that by (rule no_area_type_error)
  show "\<exists>e. fst (get_vacancies str_to_int st) = Inl e" if "PDict kvs \<in> set (data st)"
    using get_vacancies_loop_fails [OF that no_area_row [OF assms]]
    by (simp add: get_vacancies_def)
qed

theorem missing_area_fails_get_vacancies_witness:
  "vacancy_row decimal record_no_area = Inl TypeError \<and>
   fst (get_vacancies decimal (init_client\<lparr>data := [record_a, record_no_area, record_b]\<rparr>)) = Inl TypeError"
  using missing_area_fails_get_vacancies [of
      "[(''id'', PInt 3), (''name'', PStr ''D''),
      (''employer'', PDict [(''id'', PInt 10), (''name'', PStr ''Acme'')]),
      (''salary'', PDict [(''from'', PInt 1000)]), (''url'', PStr ''u4'')]" decimal
      "init_client\<lparr>data := [record_a, record_no_area, record_b]\<rparr>"]
  by (simp add: record_no_area_def record_a_def record_b_def get_vacancies_def vacancy_row_def
      well_formed_def has_int_id_def)

subsection \<open>Records without their nested objects\<close>

text \<open>
  Claim C10. The projections look the nested object up without a guard. For a record
  without the key \<open>area\<close>, \<^verbatim>\<open>vacancy.get('area')\<close> is \<open>None\<close> and \<^verbatim>\<open>get_areas\<close> raises
  \<open>AttributeError\<close> at the record; for a record without the key \<open>employer\<close>,
  \<^verbatim>\<open>get_employers\<close> and \<^verbatim>\<open>get_vacancies\<close> raise \<open>AttributeError\<close> at the record. In both
  cases the projection of an accumulated list that holds the record raises; the
  record is not skipped.
\<close>

theorem missing_nested_object_raises:
  assumes "PDict kvs \<in> set (data st)"
  shows "(map_of kvs ''area'' = None \<longrightarrow>
            get_areas_loop (PDict kvs # rest) areas = Inl AttributeError \<and>
            (\<exists>e. fst (get_areas st) = Inl e)) \<and>
         (map_of kvs ''employer'' = None \<longrightarrow>
            get_employers_loop (PDict kvs # rest) employers = Inl AttributeError \<and>
            vacancy_row str_to_int (PDict kvs) = Inl AttributeError \<and>
            (\<exists>e. fst (get_employers st) = Inl e) \<and>
            (\<exists>e. fst (get_vacancies str_to_int st) = Inl e))"
proof (intro conjI impI)
  assume a: "map_of kvs ''area'' = None"
  then show "get_areas_loop (PDict kvs # rest) areas = Inl AttributeError" by simp
  from a have "\<And>rest acc. \<exists>e. get_areas_loop (PDict kvs # rest) acc = Inl e" by simp
  from get_areas_loop_fails [OF assms this] show "\<exists>e. fst (get_areas st) = Inl e"
    by (simp add: get_areas_def)
next
  assume e: "map_of kvs ''employer'' = None"
  then show "get_employers_loop (PDict kvs # rest) employers = Inl AttributeError" by simp
  from e show r: "vacancy_row str_to_int (PDict kvs) = Inl AttributeError"
    by (rule no_employer_row)
  from e have "\<And>rest acc. \<exists>e. get_employers_loop (PDict kvs # rest) acc = Inl e" by simp
  from get_employers_loop_fails [OF assms this] show "\<exists>e. fst (get_employers st) = Inl e"
    by (simp add: get_employers_def)
  from r have "\<exists>e. vacancy_row str_to_int (PDict kvs) = Inl e" by simp
  from get_vacancies_loop_fails [OF assms this] show "\<exists>e. fst (get_vacancies str_to_int st) = Inl e"
    by (simp add: get_vacancies_def)
qed

theorem missing_nested_object_raises_witness:
  "fst (get_areas (init_client\<lparr>data := [record_a, record_no_area]\<rparr>)) = Inl AttributeError \<and>
   fst (get_employers (init_client\<lparr>data := [record_a, record_no_employer]\<rparr>)) = Inl AttributeError \<and>
   fst (get_vacancies decimal (init_client\<lparr>data := [record_a, record_no_employer]\<rparr>)) = Inl AttributeError"
  using missing_nested_object_raises [of
      "[(''id'', PInt 3), (''name'', PStr ''D''),
      (''employer'', PDict [(''id'', PInt 10), (''name'', PStr ''Acme'')]),
      (''salary'', PDict [(''from'', PInt 1000)]), (''url'', PStr ''u4'')]"
      "init_client\<lparr>data := [record_a, record_no_area]\<rparr>" "[]" "[]" "[]" decimal]
    missing_nested_object_raises [of
      "[(''id'', PInt 4), (''name'', PStr ''E''),
      (''area'', PDict [(''id'', PInt 1), (''name'', PStr ''Moscow'')]),
      (''salary'', PDict [(''from'', PInt 1000)]), (''url'', PStr ''u5'')]"
      "init_client\<lparr>data := [record_a, record_no_employer]\<rparr>" "[]" "[]" "[]" decimal]
  by (simp add: record_no_area_def record_no_employer_def record_a_def
      get_areas_def get_employers_def get_vacancies_def vacancy_row_def dict_contains_def py_eq_def)

subsection \<open>The derived maps\<close>

text \<open>
  Claim C6. When \<^verbatim>\<open>get_areas\<close> returns, its dict has one entry per area id, and the
  entry of an id is the \<open>name\<close> and \<open>url\<close> of the first record of the accumulated list
  with that nested area id; likewise for \<^verbatim>\<open>get_employers\<close> and the nested employer id
  (with the counter \<open>open_vacancies\<close> set to 0). Both return whenever every record
  holds the nested object with a hashable id.
\<close>

theorem first_seen_entry_wins:
  "(fst (get_areas st) = Inr areas \<longrightarrow>
      distinct_keys areas \<and>
      (\<forall>k. dict_lookup areas k = map_option area_entry (first_seen ''area'' (data st) k))) \<and>
   (fst (get_employers st) = Inr employers \<longrightarrow>
      distinct_keys employers \<and>
      (\<forall>k. dict_lookup employers k =
           map_option employer_entry (first_seen ''employer'' (data st) k))) \<and>
   ((\<forall>v\<in>set (data st). has_object ''area'' v) \<longrightarrow> (\<exists>d. fst (get_areas st) = Inr d)) \<and>
   ((\<forall>v\<in>set (data st). has_object ''employer'' v) \<longrightarrow> (\<exists>d. fst (get_employers st) = Inr d))"
proof (intro conjI impI allI)
  assume a: "fst (get_areas st) = Inr areas"
  then have l: "get_areas_loop (data st) [] = Inr areas" by (simp add: get_areas_def)
  from get_areas_loop_distinct [OF l] show "distinct_keys areas"
    by (simp add: distinct_keys_def)
  fix k
  from get_areas_loop_lookup [OF l, of k]
  show "dict_lookup areas k = map_option area_entry (first_seen ''area'' (data st) k)"
    by simp
next
  assume a: "fst (get_employers st) = Inr employers"
  then have l: "get_employers_loop (data st) [] = Inr employers" by (simp add: get_employers_def)
  from get_employers_loop_distinct [OF l] show "distinct_keys employers"
    by (simp add: distinct_keys_def)
  fix k
  from get_employers_loop_lookup [OF l, of k]
  show "dict_lookup employers k = map_option employer_entry (first_seen ''employer'' (data st) k)"
    by simp
next
  assume "\<forall>v\<in>set (data st). has_object ''area'' v"
  from get_areas_loop_returns [OF this] show "\<exists>d. fst (get_areas st) = Inr d"
    by (simp add: get_areas_def)
next
  assume "\<forall>v\<in>set (data st). has_object ''employer'' v"
  from get_employers_loop_returns [OF this] show "\<exists>d. fst (get_employers st) = Inr d"
    by (simp add: get_employers_def)
qed

theorem first_seen_entry_wins_witness:
  "fst (get_areas (init_client\<lparr>data := [record_first, record_second]\<rparr>)) =
     Inr [(PInt 42, PDict [(''name'', PStr ''First''), (''url'', PStr ''a'')])] \<and>
   dict_lookup [(PInt 42, PDict [(''name'', PStr ''First''), (''url'', PStr ''a'')])] (PInt 42) =
     Some (PDict [(''name'', PStr ''First''), (''url'', PStr ''a'')]) \<and>
   fst (get_employers (init_client\<lparr>data := [record_first, record_second]\<rparr>)) =
     Inr [(PStr ''7'', PDict [(''name'', PStr ''Old''), (''url'', PStr ''e''),
                              (''open_vacancies'', PInt 0)])] \<and>
   first_seen ''area'' [record_first, record_second] (PInt 42) =
     Some (PDict [(''id'', PInt 42), (''name'', PStr ''First''), (''url'', PStr ''a'')])"
proof -
  let ?st = "init_client\<lparr>data := [record_first, record_second]\<rparr>"
  have a: "fst (get_areas ?st) = Inr [(PInt 42, PDict [(''name'', PStr ''First''), (''url'', PStr ''a'')])]"
    by (simp add: get_areas_def record_first_def record_second_def dict_contains_def py_eq_def)
  have e: "fst (get_employers ?st) = Inr [(PStr ''7'', PDict [(''name'', PStr ''Old''), (''url'', PStr ''e''),
                              (''open_vacancies'', PInt 0)])]"
    by (simp add: get_employers_def record_first_def record_second_def dict_contains_def py_eq_def)
  have f: "first_seen ''area'' [record_first, record_second] (PInt 42) =
     Some (PDict [(''id'', PInt 42), (''name'', PStr ''First''), (''url'', PStr ''a'')])"
    by (simp add: record_first_def record_second_def py_eq_def)
  from first_seen_entry_wins [of ?st "[(PInt 42, PDict [(''name'', PStr ''First''), (''url'', PStr ''a'')])]"
      "[(PStr ''7'', PDict [(''name'', PStr ''Old''), (''url'', PStr ''e''), (''open_vacancies'', PInt 0)])]"] a e
  have "dict_lookup [(PInt 42, PDict [(''name'', PStr ''First''), (''url'', PStr ''a'')])] (PInt 42) =
     map_option area_entry (first_seen ''area'' (data ?st) (PInt 42))"
    by blast
  with a e f show ?thesis by (simp add: area_entry_def)
qed

subsection \<open>The pagination loop\<close>

text \<open>
  Claim C2. Let the id be valid and the employer exist, let the first \<open>k\<close> list requests
  succeed, each reporting that more pages follow, and let the next list request fail
  with a transport or HTTP error. Then \<^verbatim>\<open>load_vacancy_by_emp_id\<close> returns normally (no
  exception reaches the caller, and nothing tells the caller of the failure): the
  accumulated list has grown by exactly the items of the \<open>k\<close> pages fetched before the
  failure, in page order, and the failed request was the last one sent.
\<close>

theorem transport_failure_is_swallowed:
  assumes "valid_id emp_id = Inr emp_id"
    and "net (length (trace st)) (GetEmployer emp_id) = Some resp" and "status_code resp = 200"
    and "\<forall>j<k. \<exists>p. page_count (answer net st emp_id j) = Some p \<and> int j < p - 1"
    and "failed (answer net st emp_id k)"
  shows "\<exists>st'. load_vacancy_by_emp_id net emp_id st = Some (Inr (), st') \<and>
           data st' = data st @ concat (map (\<lambda>j. page_items (answer net st emp_id j)) [0..<k]) \<and>
           trace st' = trace st @ GetEmployer emp_id # map (list_request st emp_id) [0..<Suc k]"
proof -
  let ?s = "after_pages net (started st emp_id) k"
  have "failed (net (length (trace ?s)) (GetVacancies headers (params ?s)))"
    using assms(5) by (simp only: answer_after_pages)
  from fetch_pages_Break [OF fetch_page_failed [of net ?s, OF this]]
  have "fetch_pages net ?s = Some (Inr (), ?s\<lparr>trace := trace ?s @ [GetVacancies headers (params ?s)]\<rparr>)" .
  with started_run [OF assms(4)] load_vacancy_started [where net = net and st = st, OF assms(1-3)]
  have "load_vacancy_by_emp_id net emp_id st =
          Some (Inr (), ?s\<lparr>trace := trace ?s @ [GetVacancies headers (params ?s)]\<rparr>)"
    by simp
  then show ?thesis
    by (simp add: after_pages_started list_request_def)
qed

theorem transport_failure_is_swallowed_witness:
  "\<exists>st'. load_vacancy_by_emp_id (serve_until 1 (\<lambda>k. [PInt k, PInt (k + 10)]) 5) (PInt 7) init_client =
            Some (Inr (), st') \<and>
         data st' = [PInt 0, PInt 10] \<and>
         trace st' = [GetEmployer (PInt 7), list_request init_client (PInt 7) 0,
                      list_request init_client (PInt 7) 1]"
proof -
  let ?net = "serve_until 1 (\<lambda>k. [PInt k, PInt (k + 10)]) 5"
  have 1: "valid_id (PInt 7) = Inr (PInt 7)" by (simp add: valid_id_def)
  have 2: "?net (length (trace init_client)) (GetEmployer (PInt 7)) = Some \<lparr>status_code = 200, json = None\<rparr>"
    by (simp add: serve_until_def)
  have 3: "status_code \<lparr>status_code = 200, json = None\<rparr> = 200" by simp
  have 4: "\<forall>j<1. \<exists>p. page_count (answer ?net init_client (PInt 7) j) = Some p \<and> int j < p - 1"
    by (simp add: answer_def list_request_def)
  have 5: "failed (answer ?net init_client (PInt 7) 1)"
    by (simp add: answer_def list_request_def)
  from transport_failure_is_swallowed [OF 1 2 3 4 5] obtain st' where
    "load_vacancy_by_emp_id ?net (PInt 7) init_client = Some (Inr (), st')"
    "data st' = data init_client @ concat (map (\<lambda>j. page_items (answer ?net init_client (PInt 7) j)) [0..<1])"
    "trace st' = trace init_client @ GetEmployer (PInt 7) # map (list_request init_client (PInt 7)) [0..<Suc 1]"
    by blast
  moreover have "data init_client = []" "trace init_client = []"
    by (simp_all add: init_client_def)
  moreover have "[0..<Suc 1] = [0, 1]" by (simp add: upt_rec)
  ultimately show ?thesis
    by (simp add: answer_def list_request_def)
qed

text \<open>
  Claim C3, as amended. Let the id be valid and the employer exist, and let every list
  request succeed and report \<open>p\<close> pages. Then \<^verbatim>\<open>load_vacancy_by_emp_id\<close> returns after
  \<open>page_requests p\<close> list requests, for the pages \<open>0, 1, ...\<close> in this order: exactly \<open>p\<close>
  requests when \<open>p \<ge> 1\<close>, and one request (page 0) when \<open>p \<le> 0\<close>, the loop testing the
  page count only after a page has been fetched. It stops at the first page index
  that is at least \<open>p - 1\<close>, and the list has grown by the items of the pages in page
  order.
\<close>

theorem pagination_issues_each_page_once:
  assumes "valid_id emp_id = Inr emp_id"
    and "net (length (trace st)) (GetEmployer emp_id) = Some resp" and "status_code resp = 200"
    and "\<forall>t q. page_count (net t (GetVacancies headers q)) = Some p"
  shows "\<exists>st'. load_vacancy_by_emp_id net emp_id st = Some (Inr (), st') \<and>
           trace st' = trace st @ GetEmployer emp_id #
                         map (list_request st emp_id) [0..<page_requests p] \<and>
           data st' = data st @
                        concat (map (\<lambda>j. page_items (answer net st emp_id j)) [0..<page_requests p]) \<and>
           page (params st') = int (page_requests p) - 1 \<and>
           p - 1 \<le> page (params st') \<and>
           (1 \<le> p \<longrightarrow> page_requests p = nat p) \<and> (p \<le> 0 \<longrightarrow> page_requests p = 1)"
  using assms by (rule load_vacancy_all_pages)

theorem pagination_issues_each_page_once_witness:
  "\<exists>st'. load_vacancy_by_emp_id (serve (\<lambda>e. 200) (\<lambda>k. [PInt k, PInt (k + 10)]) 3) (PInt 7) init_client =
            Some (Inr (), st') \<and>
         data st' = [PInt 0, PInt 10, PInt 1, PInt 11, PInt 2, PInt 12] \<and>
         trace st' = [GetEmployer (PInt 7), list_request init_client (PInt 7) 0,
                      list_request init_client (PInt 7) 1, list_request init_client (PInt 7) 2]"
proof -
  let ?net = "serve (\<lambda>e. 200) (\<lambda>k. [PInt k, PInt (k + 10)]) 3"
  have u: "[0..<page_requests 3] = [0, 1, 2]"
    by (simp add: page_requests_def upt_rec)
  have 1: "valid_id (PInt 7) = Inr (PInt 7)" by (simp add: valid_id_def)
  have 2: "?net (length (trace init_client)) (GetEmployer (PInt 7)) = Some \<lparr>status_code = 200, json = None\<rparr>"
    by (simp add: serve_def)
  have 3: "status_code \<lparr>status_code = 200, json = None\<rparr> = 200" by simp
  have 4: "\<forall>t q. page_count (?net t (GetVacancies headers q)) = Some 3" by simp
  from pagination_issues_each_page_once [OF 1 2 3 4] obtain st' where
    "load_vacancy_by_emp_id ?net (PInt 7) init_client = Some (Inr (), st')"
    "trace st' = trace init_client @ GetEmployer (PInt 7) #
                         map (list_request init_client (PInt 7)) [0..<page_requests 3]"
    "data st' = data init_client @
         concat (map (\<lambda>j. page_items (answer ?net init_client (PInt 7) j)) [0..<page_requests 3])"
    by blast
  moreover have "data init_client = []" "trace init_client = []"
    by (simp_all add: init_client_def)
  ultimately show ?thesis
    unfolding u by (simp add: answer_def list_request_def)
qed

text \<open>
  The claim as stated (exactly \<open>p\<close> list requests for every \<open>p\<close>) fails for \<open>p = 0\<close>:
  when the server reports 0 pages, one list request is sent.
\<close>

theorem pagination_zero_pages_counterexample:
  "page_count (serve (\<lambda>e. 200) (\<lambda>k. []) 0 1 (list_request init_client (PInt 7) 0)) = Some 0 \<and>
   load_vacancy_by_emp_id (serve (\<lambda>e. 200) (\<lambda>k. []) 0) (PInt 7) init_client =
     Some (Inr (),
           init_client\<lparr>trace := [GetEmployer (PInt 7), list_request init_client (PInt 7) 0],
                        params := (params init_client)\<lparr>employer_id := Some (PInt 7), page := 0\<rparr>\<rparr>)"
proof
  show "page_count (serve (\<lambda>e. 200) (\<lambda>k. []) 0 1 (list_request init_client (PInt 7) 0)) = Some 0"
    by (simp add: list_request_def)
  show "load_vacancy_by_emp_id (serve (\<lambda>e. 200) (\<lambda>k. []) 0) (PInt 7) init_client =
     Some (Inr (),
           init_client\<lparr>trace := [GetEmployer (PInt 7), list_request init_client (PInt 7) 0],
                        params := (params init_client)\<lparr>employer_id := Some (PInt 7), page := 0\<rparr>\<rparr>)"
    by (simp add: list_request_def load_vacancy_by_emp_id_def valid_id_def check_existence_def send_def
      serve_def init_client_def fetch_pages.simps fetch_page_def raise_for_status_def page_body_def
      py_sub_def)
qed

subsection \<open>A batch of employers\<close>

text \<open>
  Claim C1, as amended. \<^verbatim>\<open>load_vacancies_by_emp_ids\<close> calls \<^verbatim>\<open>load_vacancy_by_emp_id\<close>
  for the ids in the given order. When every id is valid and exists, and every list
  request either fails (a transport or HTTP error, swallowed inside the employer's
  loop) or is a page with a bounded page count, the batch returns normally after
  one fetch per id, in order (\<open>fetched_in_order\<close>): each fetch sends its lookup request
  and the list requests for the pages up to the one that fails or is the last, and
  appends the items of the answered pages; so a failure inside one employer's loop
  does not stop the fetches of the next employers (every id is looked up and asked
  for its page 0, in order). But nothing in the batch catches the \<open>ValueError\<close> of
  \<^verbatim>\<open>valid_id\<close> and \<^verbatim>\<open>check_existence\<close>: when the next id is invalid, or its lookup is not
  answered with 200, the batch raises that error and sends no request for the ids
  after it.
\<close>

theorem batch_runs_in_order_until_rejected_id:
  assumes "\<forall>e\<in>set emp_ids. valid_id e = Inr e"
    and "\<forall>t. \<forall>e\<in>set emp_ids. \<exists>resp. net t (GetEmployer e) = Some resp \<and> status_code resp = 200"
    and "\<forall>t q. tame bound (net t (GetVacancies headers q))"
  shows "\<exists>st'. load_vacancies_by_emp_ids net emp_ids st = Some (Inr (), st') \<and>
           fetched_in_order net emp_ids st st' \<and>
           lookups (trace st') = lookups (trace st) @ emp_ids \<and>
           first_pages (trace st') = first_pages (trace st) @ emp_ids \<and>
           prefix (data st) (data st') \<and>
           (\<forall>bad rest err. valid_id bad = Inl err \<longrightarrow>
              load_vacancies_by_emp_ids net (emp_ids @ bad # rest) st = Some (Inl err, st')) \<and>
           (\<forall>bad rest resp.
              valid_id bad = Inr bad \<and> net (length (trace st')) (GetEmployer bad) = Some resp \<and>
              status_code resp \<noteq> 200 \<longrightarrow>
              load_vacancies_by_emp_ids net (emp_ids @ bad # rest) st =
                Some (Inl (ValueError (if status_code resp = 404 then ''Employer ID does not exist''
                                       else ''Failed to check employer ID'')),
                      st'\<lparr>trace := trace st' @ [GetEmployer bad]\<rparr>))"
proof -
  from load_vacancies_tame [OF assms] obtain st' where
    st': "load_vacancies_by_emp_ids net emp_ids st = Some (Inr (), st')"
      "lookups (trace st') = lookups (trace st) @ emp_ids"
    by blast
  have f: "fetched_in_order net emp_ids st st'"
    using assms st'(1) by (rule load_vacancies_tame_fetched)
  have g: "first_pages (trace st') = first_pages (trace st) @ emp_ids"
    using f by (rule fetched_in_order_first_pages)
  have p: "prefix (data st) (data st')"
    using load_vacancies_data [OF st'(1)] by simp
  have "load_vacancies_by_emp_ids net (emp_ids @ bad # rest) st = Some (Inl err, st')"
    if "valid_id bad = Inl err" for bad rest err
    using load_vacancies_append [OF st'(1)] load_vacancies_invalid [OF that] by simp
  moreover have "load_vacancies_by_emp_ids net (emp_ids @ bad # rest) st =
                Some (Inl (ValueError (if status_code resp = 404 then ''Employer ID does not exist''
                                       else ''Failed to check employer ID'')),
                      st'\<lparr>trace := trace st' @ [GetEmployer bad]\<rparr>)"
    if "valid_id bad = Inr bad \<and> net (length (trace st')) (GetEmployer bad) = Some resp \<and>
              status_code resp \<noteq> 200" for bad rest resp
    using load_vacancies_append [OF st'(1)] load_vacancies_not_200 [of bad net st' resp] that
    by simp
  ultimately show ?thesis using st' f g p by blast
qed

theorem batch_runs_in_order_until_rejected_id_witness:
  "\<exists>st'. load_vacancies_by_emp_ids (serve_until 1 (\<lambda>k. [PInt k]) 3) [PInt 5, PInt 6] init_client =
            Some (Inr (), st') \<and>
         trace st' =
           [GetEmployer (PInt 5), list_request init_client (PInt 5) 0,
            list_request init_client (PInt 5) 1,
            GetEmployer (PInt 6), list_request init_client (PInt 6) 0,
            list_request init_client (PInt 6) 1] \<and>
         data st' = [PInt 0, PInt 0] \<and>
         lookups (trace st') = [PInt 5, PInt 6] \<and>
         first_pages (trace st') = [PInt 5, PInt 6] \<and>
         fetched_in_order (serve_until 1 (\<lambda>k. [PInt k]) 3) [PInt 5, PInt 6] init_client st' \<and>
         load_vacancies_by_emp_ids (serve_until 1 (\<lambda>k. [PInt k]) 3)
             ([PInt 5, PInt 6] @ [PInt 0, PInt 9]) init_client =
           Some (Inl (ValueError ''Invalid employer ID''), st')"
proof -
  let ?net = "serve_until 1 (\<lambda>k. [PInt k]) 3"
  have 1: "\<forall>e\<in>set [PInt 5, PInt 6]. valid_id e = Inr e"
    by (simp add: valid_id_def)
  have 2: "\<forall>t. \<forall>e\<in>set [PInt 5, PInt 6].
      \<exists>resp. ?net t (GetEmployer e) = Some resp \<and> status_code resp = 200"
    by (simp add: serve_until_def)
  have 3: "\<forall>t q. tame 3 (?net t (GetVacancies headers q))"
    by (simp add: tame_def)
  have 4: "valid_id (PInt 0) = Inl (ValueError ''Invalid employer ID'')"
    by (simp add: valid_id_def)
  have 5: "lookups (trace init_client) = []" "first_pages (trace init_client) = []"
    by (simp_all add: init_client_def lookups_def first_pages_def)
  have run: "load_vacancies_by_emp_ids ?net [PInt 5, PInt 6] init_client =
     Some (Inr (),
       init_client\<lparr>trace := [GetEmployer (PInt 5), list_request init_client (PInt 5) 0,
            list_request init_client (PInt 5) 1,
            GetEmployer (PInt 6), list_request init_client (PInt 6) 0,
            list_request init_client (PInt 6) 1],
          params := (params init_client)\<lparr>employer_id := Some (PInt 6), page := 1\<rparr>,
          data := [PInt 0, PInt 0]\<rparr>)"
    by (simp add: list_request_def load_vacancy_by_emp_id_def valid_id_def check_existence_def send_def
      serve_until_def init_client_def fetch_pages.simps fetch_page_def raise_for_status_def page_body_def
      py_sub_def)
  from batch_runs_in_order_until_rejected_id [OF 1 2 3, of init_client] obtain st' where
    a: "load_vacancies_by_emp_ids ?net [PInt 5, PInt 6] init_client = Some (Inr (), st')"
     "fetched_in_order ?net [PInt 5, PInt 6] init_client st'"
     "lookups (trace st') = lookups (trace init_client) @ [PInt 5, PInt 6]"
     "first_pages (trace st') = first_pages (trace init_client) @ [PInt 5, PInt 6]"
    and b: "\<And>bad rest err. valid_id bad = Inl err \<Longrightarrow>
              load_vacancies_by_emp_ids ?net ([PInt 5, PInt 6] @ bad # rest) init_client
                = Some (Inl err, st')"
    by blast
  from a(1) run
  have "st' = init_client\<lparr>trace := [GetEmployer (PInt 5), list_request init_client (PInt 5) 0,
            list_request init_client (PInt 5) 1,
            GetEmployer (PInt 6), list_request init_client (PInt 6) 0,
            list_request init_client (PInt 6) 1],
          params := (params init_client)\<lparr>employer_id := Some (PInt 6), page := 1\<rparr>,
          data := [PInt 0, PInt 0]\<rparr>"
    by (simp only: option.inject prod.inject)
  then have c: "trace st' = [GetEmployer (PInt 5), list_request init_client (PInt 5) 0,
            list_request init_client (PInt 5) 1,
            GetEmployer (PInt 6), list_request init_client (PInt 6) 0,
            list_request init_client (PInt 6) 1]" "data st' = [PInt 0, PInt 0]"
    by simp_all
  from a b [OF 4, of "[PInt 9]"] 5 c show ?thesis
    by (intro exI [of _ st']) simp
qed

text \<open>
  The claim as stated fails: with the invalid id 0 (or the unknown employer 3) first
  in the list, the batch raises and no request is sent for employer 5, which the
  same transport serves when it is asked alone.
\<close>

theorem batch_aborts_counterexample:
  "load_vacancies_by_emp_ids (serve (\<lambda>e. 200) (\<lambda>k. [PInt k]) 1) [PInt 0, PInt 5] init_client =
     Some (Inl (ValueError ''Invalid employer ID''), init_client) \<and>
   load_vacancies_by_emp_ids (serve (\<lambda>e. if e = PInt 3 then 404 else 200) (\<lambda>k. [PInt k]) 1)
       [PInt 3, PInt 5] init_client =
     Some (Inl (ValueError ''Employer ID does not exist''),
           init_client\<lparr>trace := [GetEmployer (PInt 3)]\<rparr>) \<and>
   load_vacancies_by_emp_ids (serve (\<lambda>e. 200) (\<lambda>k. [PInt k]) 1) [PInt 5] init_client =
     Some (Inr (),
           init_client\<lparr>trace := [GetEmployer (PInt 5), list_request init_client (PInt 5) 0],
                        params := (params init_client)\<lparr>employer_id := Some (PInt 5), page := 0\<rparr>,
                        data := [PInt 0]\<rparr>)"
  by (simp add: list_request_def load_vacancy_by_emp_id_def valid_id_def check_existence_def send_def
      serve_def init_client_def fetch_pages.simps fetch_page_def raise_for_status_def page_body_def
      py_sub_def)

subsection \<open>The accumulated list\<close>

text \<open>
  Claim C9. The fetch operations only append to the accumulated list: the list before
  \<^verbatim>\<open>load_vacancy_by_emp_id\<close> or \<^verbatim>\<open>load_vacancies_by_emp_ids\<close> is a prefix of the list
  after it, whether the operation returns or raises, and each iteration of the loop
  only appends (so also in a run that does not end). The projections return the
  client as they found it, \<^verbatim>\<open>get_info\<close> returning the list itself. Nothing is
  deduplicated when the list grows: fetching the same employer twice from a server
  with one page of items \<open>vs\<close> appends \<open>vs\<close> twice.
\<close>

theorem accumulated_list_only_grows:
  "(load_vacancy_by_emp_id net emp_id st = Some (r, st') \<longrightarrow> prefix (data st) (data st')) \<and>
   (load_vacancies_by_emp_ids net emp_ids st = Some (r, st') \<longrightarrow> prefix (data st) (data st')) \<and>
   prefix (data st) (data (step_client (fetch_page net st))) \<and>
   get_info st = (data st, st) \<and>
   snd (get_areas st) = st \<and> snd (get_employers st) = st \<and>
   snd (get_vacancies str_to_int st) = st \<and>
   (valid_id emp_id = Inr emp_id \<longrightarrow>
      (\<exists>st1 st2.
         load_vacancy_by_emp_id (serve (\<lambda>e. 200) (\<lambda>k. vs) 1) emp_id st = Some (Inr (), st1) \<and>
         load_vacancy_by_emp_id (serve (\<lambda>e. 200) (\<lambda>k. vs) 1) emp_id st1 = Some (Inr (), st2) \<and>
         data st2 = data st @ vs @ vs))"
proof (intro conjI impI)
  show "prefix (data st) (data st')" if "load_vacancy_by_emp_id net emp_id st = Some (r, st')"
    using load_vacancy_data [OF that] by simp
  show "prefix (data st) (data st')" if "load_vacancies_by_emp_ids net emp_ids st = Some (r, st')"
    using load_vacancies_data [OF that] by simp
  show "prefix (data st) (data (step_client (fetch_page net st)))"
    by (rule fetch_page_data)
  show "get_info st = (data st, st)" by (simp add: get_info_def)
  show "snd (get_areas st) = st" by (simp add: get_areas_def)
  show "snd (get_employers st) = st" by (simp add: get_employers_def)
  show "snd (get_vacancies str_to_int st) = st" by (simp add: get_vacancies_def)
  show "\<exists>st1 st2.
         load_vacancy_by_emp_id (serve (\<lambda>e. 200) (\<lambda>k. vs) 1) emp_id st = Some (Inr (), st1) \<and>
         load_vacancy_by_emp_id (serve (\<lambda>e. 200) (\<lambda>k. vs) 1) emp_id st1 = Some (Inr (), st2) \<and>
         data st2 = data st @ vs @ vs" if "valid_id emp_id = Inr emp_id"
    using that by (rule serve_twice)
qed

theorem accumulated_list_only_grows_witness:
  "\<exists>st1 st2.
     load_vacancy_by_emp_id (serve (\<lambda>e. 200) (\<lambda>k. [record_a]) 1) (PInt 10) init_client =
       Some (Inr (), st1) \<and>
     load_vacancy_by_emp_id (serve (\<lambda>e. 200) (\<lambda>k. [record_a]) 1) (PInt 10) st1 = Some (Inr (), st2) \<and>
     data st1 = [record_a] \<and> data st2 = [record_a, record_a] \<and> prefix (data st1) (data st2)"
proof -
  let ?net = "serve (\<lambda>e. 200) (\<lambda>k. [record_a]) 1"
  have v: "valid_id (PInt 10) = Inr (PInt 10)" by (simp add: valid_id_def)
  have i: "data init_client = []" by (simp add: init_client_def)
  have one: "load_vacancy_by_emp_id ?net (PInt 10) init_client =
     Some (Inr (),
           init_client\<lparr>trace := [GetEmployer (PInt 10), list_request init_client (PInt 10) 0],
                        params := (params init_client)\<lparr>employer_id := Some (PInt 10), page := 0\<rparr>,
                        data := [record_a]\<rparr>)"
    by (simp add: list_request_def load_vacancy_by_emp_id_def valid_id_def check_existence_def send_def
      serve_def init_client_def fetch_pages.simps fetch_page_def raise_for_status_def page_body_def
      py_sub_def)
  from accumulated_list_only_grows [of ?net "PInt 10" init_client _ _ _ _ "[record_a]"] v
  obtain st1 st2 where
    s: "load_vacancy_by_emp_id ?net (PInt 10) init_client = Some (Inr (), st1)"
       "load_vacancy_by_emp_id ?net (PInt 10) st1 = Some (Inr (), st2)"
       "data st2 = data init_client @ [record_a] @ [record_a]"
    by blast
  from s(1) one
  have "st1 = init_client\<lparr>trace := [GetEmployer (PInt 10), list_request init_client (PInt 10) 0],
                        params := (params init_client)\<lparr>employer_id := Some (PInt 10), page := 0\<rparr>,
                        data := [record_a]\<rparr>"
    by (simp only: option.inject prod.inject)
  then have "data st1 = [record_a]" by simp
  moreover from accumulated_list_only_grows [of ?net "PInt 10" st1 "Inr ()" st2] s(2)
  have "prefix (data st1) (data st2)" by blast
  ultimately show ?thesis using s i by auto
qed

end
